theory Spec2Isabelle
  imports Complex_Main "HOL-Library.Word"
begin

section \<open>Deep Q-learning notebook: wrappers, replay buffer and training loop\<close>

text \<open>
  The development follows \<^verbatim>\<open>lecture_notebook.ipynb\<close>. Python exceptions are values of
  \<open>py_error\<close>; a function that can raise returns \<open>py_error + 'a\<close> with \<open>Inl\<close> the
  exception. Python floats (rewards, Q-values, the discount) are idealised as \<open>real\<close>:
  rounding is not modelled.
\<close>

datatype py_error =
  ValueError | AttributeError | AssertionError | IndexError | UnboundLocalError | RuntimeError

subsection \<open>\<^verbatim>\<open>collections.deque(maxlen=...)\<close>\<close>

text \<open>
  \<^verbatim>\<open>deque.append\<close> adds the item on the right and, when the deque is then longer than
  \<^verbatim>\<open>maxlen\<close>, drops the leftmost item.
\<close>

definition deque_append :: "nat \<Rightarrow> 'a list \<Rightarrow> 'a \<Rightarrow> 'a list" where
  "deque_append maxlen dq x =
     (let dq' = dq @ [x] in if length dq' > maxlen then tl dq' else dq')"

subsection \<open>Experience replay\<close>

text \<open>
  \<^verbatim>\<open>Experience = namedtuple('Experience', ['state', 'action', 'reward', 'done', 'new_state'])\<close>;
  the fields carry the prefix \<open>exp_\<close>. Observations are values of a type \<open>'s\<close>.
\<close>

record 's Experience =
  exp_state :: 's
  exp_action :: int
  exp_reward :: real
  exp_done :: bool
  exp_new_state :: 's

text \<open>
  \<^verbatim>\<open>class ReplayBuffer\<close>: \<^verbatim>\<open>self.buffer = deque(maxlen=capacity)\<close>.
\<close>

record 's ReplayBuffer =
  buffer :: "'s Experience list"
  capacity :: nat

definition ReplayBuffer_init :: "nat \<Rightarrow> 's ReplayBuffer" where
  "ReplayBuffer_init c = \<lparr>buffer = [], capacity = c\<rparr>"

definition ReplayBuffer_len :: "'s ReplayBuffer \<Rightarrow> nat" where
  "ReplayBuffer_len rb = length (buffer rb)"

definition ReplayBuffer_append :: "'s ReplayBuffer \<Rightarrow> 's Experience \<Rightarrow> 's ReplayBuffer" where
  "ReplayBuffer_append rb experience =
     rb\<lparr>buffer := deque_append (capacity rb) (buffer rb) experience\<rparr>"

text \<open>
  \<^verbatim>\<open>np.random.choice(n, size, replace=False)\<close> raises \<^verbatim>\<open>ValueError\<close> when more is asked
  for than there is, \<open>sz > n\<close>, and otherwise returns the first \<open>sz\<close> entries of a random
  permutation of \<open>0..<n\<close>. The permutation \<open>perm\<close> is the draw of the random source.
\<close>

definition random_choice :: "nat list \<Rightarrow> nat \<Rightarrow> nat \<Rightarrow> py_error + nat list" where
  "random_choice perm n sz = (if sz > n then Inl ValueError else Inr (take sz perm))"

text \<open>\<^verbatim>\<open>self.buffer[idx]\<close>, raising \<^verbatim>\<open>IndexError\<close> out of range.\<close>

fun getitems :: "'a list \<Rightarrow> nat list \<Rightarrow> py_error + 'a list" where
  "getitems xs [] = Inr []"
| "getitems xs (idx # indices) =
     (if idx < length xs
      then (case getitems xs indices of Inl e \<Rightarrow> Inl e | Inr ys \<Rightarrow> Inr (xs ! idx # ys))
      else Inl IndexError)"

text \<open>
  \<^verbatim>\<open>states, actions, rewards, dones, next_states = zip(*rows)\<close>: the transposition of the
  rows into five columns. \<^verbatim>\<open>zip()\<close> of no rows yields nothing, and unpacking nothing
  into five names raises \<^verbatim>\<open>ValueError\<close>. \<^verbatim>\<open>np.array(dones, dtype=np.uint8)\<close> turns the
  booleans into bytes.
\<close>

type_synonym 's batch = "'s list \<times> int list \<times> real list \<times> 8 word list \<times> 's list"

definition unzip5 :: "'s Experience list \<Rightarrow> py_error + 's batch" where
  "unzip5 rows =
     (if rows = [] then Inl ValueError
      else Inr (map exp_state rows, map exp_action rows, map exp_reward rows,
                map (\<lambda>e. if exp_done e then 1 else 0) rows, map exp_new_state rows))"

definition ReplayBuffer_sample :: "'s ReplayBuffer \<Rightarrow> nat list \<Rightarrow> nat \<Rightarrow> py_error + 's batch" where
  "ReplayBuffer_sample rb perm batch_size =
     (case random_choice perm (length (buffer rb)) batch_size of
        Inl e \<Rightarrow> Inl e
      | Inr indices \<Rightarrow>
          (case getitems (buffer rb) indices of
             Inl e \<Rightarrow> Inl e
           | Inr rows \<Rightarrow> unzip5 rows))"

text \<open>Sample experiences for evaluating the definitions on concrete inputs.\<close>

definition example_experience :: "nat \<Rightarrow> nat Experience" where
  "example_experience k =
     \<lparr>exp_state = k, exp_action = 0, exp_reward = 1, exp_done = False, exp_new_state = Suc k\<rparr>"

subsection \<open>Arrays by reference\<close>

text \<open>
  \<^verbatim>\<open>BufferWrapper\<close> mutates one numpy array in place and returns a reference to it, so
  arrays live on a heap: a list of arrays, the address of an array being its position.
  An array is the list of its entries along axis 0 (for the frame stack: its frames).
  Allocation appends; nothing is ever freed, so a reference once handed out stays
  inside the heap.
\<close>

type_synonym 'a heap = "'a list list"

definition alloc :: "'v list \<Rightarrow> 'v \<Rightarrow> 'v list \<times> nat" where
  "alloc h v = (h @ [v], length h)"

subsection \<open>\<^verbatim>\<open>BufferWrapper\<close>\<close>

text \<open>
  \<^verbatim>\<open>self.buffer\<close> is a reference that exists only after the first \<^verbatim>\<open>reset\<close>;
  \<open>n_steps\<close> is the length of axis 0 of \<^verbatim>\<open>self.observation_space.low\<close>
  (\<^verbatim>\<open>make_env\<close> passes 4 over a one-channel frame).
\<close>

record BufferWrapper =
  self_buffer :: "nat option"
  n_steps :: nat

definition BufferWrapper_init :: "nat \<Rightarrow> BufferWrapper" where
  "BufferWrapper_init n = \<lparr>self_buffer = None, n_steps = n\<rparr>"

text \<open>
  \<^verbatim>\<open>self.buffer[:-1] = self.buffer[1:]\<close> moves every entry but the first one position
  down and leaves the last entry in place; \<^verbatim>\<open>self.buffer[-1] = observation\<close> then
  overwrites the last entry (\<^verbatim>\<open>IndexError\<close> on an array of length 0). The reference
  \<^verbatim>\<open>self.buffer\<close> itself is returned.
\<close>

definition BufferWrapper_observation ::
  "'a heap \<Rightarrow> BufferWrapper \<Rightarrow> 'a \<Rightarrow> py_error + ('a heap \<times> nat)" where
  "BufferWrapper_observation h self observation =
     (case self_buffer self of
        None \<Rightarrow> Inl AttributeError
      | Some b \<Rightarrow>
          (let arr = h ! b;
               shifted = drop 1 arr @ drop (length arr - 1) arr
           in if shifted = [] then Inl IndexError
              else Inr (h[b := shifted[length shifted - 1 := observation]], b)))"

text \<open>
  \<^verbatim>\<open>reset\<close>: \<^verbatim>\<open>self.buffer = np.zeros_like(...)\<close> allocates a new array of zero frames,
  then the first observation of the inner environment goes through \<^verbatim>\<open>observation\<close>.
\<close>

definition BufferWrapper_reset ::
  "'a::zero heap \<Rightarrow> BufferWrapper \<Rightarrow> 'a \<Rightarrow> py_error + ('a heap \<times> BufferWrapper \<times> nat)" where
  "BufferWrapper_reset h self first_obs =
     (let (h1, b) = alloc h (replicate (n_steps self) 0);
          self1 = self\<lparr>self_buffer := Some b\<rparr>
      in case BufferWrapper_observation h1 self1 first_obs of
           Inl e \<Rightarrow> Inl e
         | Inr (h2, a) \<Rightarrow> Inr (h2, self1, a))"

text \<open>Consecutive pushes (\<^verbatim>\<open>step\<close> of the observation wrapper), one per frame.\<close>

fun BufferWrapper_pushes :: "'a heap \<Rightarrow> BufferWrapper \<Rightarrow> 'a list \<Rightarrow> py_error + 'a heap" where
  "BufferWrapper_pushes h self [] = Inr h"
| "BufferWrapper_pushes h self (f # fs) =
     (case BufferWrapper_observation h self f of
        Inl e \<Rightarrow> Inl e
      | Inr (h1, a) \<Rightarrow> BufferWrapper_pushes h1 self fs)"

subsection \<open>\<^verbatim>\<open>ScaledFloatFrame\<close> over \<^verbatim>\<open>BufferWrapper\<close>\<close>

text \<open>
  \<^verbatim>\<open>np.array(obs).astype(np.float32) / 255.0\<close> builds a new array from the one it is
  given. The division of one frame by 255 is the parameter \<open>div255\<close>.
\<close>

definition ScaledFloatFrame_observation :: "('a \<Rightarrow> 'a) \<Rightarrow> 'a heap \<Rightarrow> nat \<Rightarrow> 'a heap \<times> nat" where
  "ScaledFloatFrame_observation div255 h obs = alloc h (map div255 (h ! obs))"

text \<open>
  The two outer layers of \<^verbatim>\<open>make_env\<close>. A call is \<^verbatim>\<open>reset()\<close> or \<^verbatim>\<open>step(action)\<close>;
  it carries the frame that the inner wrappers produce for it. The result is the
  reference handed to the caller.
\<close>

datatype 'a env_op = Reset 'a | Step 'a

fun env_apply ::
  "('a \<Rightarrow> 'a) \<Rightarrow> 'a::zero heap \<times> BufferWrapper \<Rightarrow> 'a env_op \<Rightarrow>
     py_error + (('a heap \<times> BufferWrapper) \<times> nat)" where
  "env_apply div255 (h, self) (Reset f) =
     (case BufferWrapper_reset h self f of
        Inl e \<Rightarrow> Inl e
      | Inr (h1, self1, a) \<Rightarrow>
          (let (h2, r) = ScaledFloatFrame_observation div255 h1 a in Inr ((h2, self1), r)))"
| "env_apply div255 (h, self) (Step f) =
     (case BufferWrapper_observation h self f of
        Inl e \<Rightarrow> Inl e
      | Inr (h1, a) \<Rightarrow>
          (let (h2, r) = ScaledFloatFrame_observation div255 h1 a in Inr ((h2, self), r)))"

fun env_run ::
  "('a \<Rightarrow> 'a) \<Rightarrow> 'a::zero heap \<times> BufferWrapper \<Rightarrow> 'a env_op list \<Rightarrow>
     py_error + ('a heap \<times> BufferWrapper)" where
  "env_run div255 st [] = Inr st"
| "env_run div255 st (c # cs) =
     (case env_apply div255 st c of
        Inl e \<Rightarrow> Inl e
      | Inr (st1, r) \<Rightarrow> env_run div255 st1 cs)"

text \<open>
  A wrapper whose buffer reference points at an array of \<open>n_steps\<close> frames on the heap.
\<close>

definition bw_ok :: "'a heap \<Rightarrow> BufferWrapper \<Rightarrow> nat \<Rightarrow> bool" where
  "bw_ok h self b \<longleftrightarrow>
     self_buffer self = Some b \<and> b < length h \<and> length (h ! b) = n_steps self \<and> 0 < n_steps self"

definition env_ok :: "'a heap \<Rightarrow> BufferWrapper \<Rightarrow> bool" where
  "env_ok h self \<longleftrightarrow> (case self_buffer self of None \<Rightarrow> True | Some b \<Rightarrow> bw_ok h self b)"

definition example_div255 :: "nat \<Rightarrow> nat" where
  "example_div255 x = x div 255"

subsection \<open>\<^verbatim>\<open>MaxAndSkipEnv\<close>\<close>

text \<open>
  A raw frame is its pixel bytes in storage order. The wrapped simulator is a step
  function on its own state \<open>'e\<close>: \<open>env_step e action = (e', obs, reward, done)\<close>
  (the \<^verbatim>\<open>info\<close> dictionary is passed through unchanged and left out).
  \<^verbatim>\<open>self._obs_buffer = collections.deque(maxlen=2)\<close>, \<^verbatim>\<open>self._skip = skip\<close>.
\<close>

type_synonym frame = "8 word list"

record MaxAndSkipEnv =
  obs_buffer :: "frame list"
  skip :: nat

definition MaxAndSkipEnv_init :: "nat \<Rightarrow> MaxAndSkipEnv" where
  "MaxAndSkipEnv_init n = \<lparr>obs_buffer = [], skip = n\<rparr>"

text \<open>
  The \<^verbatim>\<open>for _ in range(self._skip)\<close> loop with its \<^verbatim>\<open>break\<close>; the loop state is the
  simulator, the deque, \<^verbatim>\<open>total_reward\<close> and \<^verbatim>\<open>done\<close> (\<^verbatim>\<open>None\<close> before the first raw step).
\<close>

fun skip_loop ::
  "('e \<Rightarrow> int \<Rightarrow> 'e \<times> frame \<times> real \<times> bool) \<Rightarrow> int \<Rightarrow> nat \<Rightarrow>
     'e \<times> frame list \<times> real \<times> bool option \<Rightarrow> 'e \<times> frame list \<times> real \<times> bool option" where
  "skip_loop env_step action 0 st = st"
| "skip_loop env_step action (Suc n) (e, buf, total_reward, dn) =
     (case env_step e action of
        (e', obs, reward, d) \<Rightarrow>
          (if d then (e', deque_append 2 buf obs, total_reward + reward, Some d)
           else skip_loop env_step action n
                  (e', deque_append 2 buf obs, total_reward + reward, Some d)))"

text \<open>
  \<^verbatim>\<open>np.max(np.stack(frames), axis=0)\<close>: \<^verbatim>\<open>np.stack\<close> raises \<^verbatim>\<open>ValueError\<close> on no frame
  and on frames of different shapes; otherwise the pixel-wise maximum.
\<close>

definition pixel_max :: "frame \<Rightarrow> frame \<Rightarrow> frame" where
  "pixel_max f g = map (\<lambda>(x, y). max x y) (zip f g)"

definition np_max_stack :: "frame list \<Rightarrow> py_error + frame" where
  "np_max_stack fs =
     (case fs of
        [] \<Rightarrow> Inl ValueError
      | f # rest \<Rightarrow>
          (if list_all (\<lambda>g. length g = length f) rest then Inr (foldl pixel_max f rest)
           else Inl ValueError))"

text \<open>
  \<^verbatim>\<open>MaxAndSkipEnv.step\<close>. With \<^verbatim>\<open>skip = 0\<close> and a non-empty deque the \<^verbatim>\<open>return\<close> reads
  \<^verbatim>\<open>info\<close>, which no raw step has bound.
\<close>

definition MaxAndSkipEnv_step ::
  "('e \<Rightarrow> int \<Rightarrow> 'e \<times> frame \<times> real \<times> bool) \<Rightarrow> MaxAndSkipEnv \<Rightarrow> 'e \<Rightarrow> int \<Rightarrow>
     py_error + (MaxAndSkipEnv \<times> 'e \<times> frame \<times> real \<times> bool)" where
  "MaxAndSkipEnv_step env_step self e action =
     (case skip_loop env_step action (skip self) (e, obs_buffer self, 0, None) of
        (e', buf, total_reward, dn) \<Rightarrow>
          (case np_max_stack buf of
             Inl err \<Rightarrow> Inl err
           | Inr max_frame \<Rightarrow>
               (case dn of
                  None \<Rightarrow> Inl UnboundLocalError
                | Some d \<Rightarrow> Inr (self\<lparr>obs_buffer := buf\<rparr>, e', max_frame, total_reward, d))))"

text \<open>
  The action repeat as the design describes it: the action is applied to the simulator
  up to \<open>k\<close> times, stopping after the first raw step that reports termination. The result
  lists what each executed raw step returned, and gives the simulator afterwards.
\<close>

fun repeat_action ::
  "('e \<Rightarrow> int \<Rightarrow> 'e \<times> frame \<times> real \<times> bool) \<Rightarrow> int \<Rightarrow> nat \<Rightarrow> 'e \<Rightarrow>
     (frame \<times> real \<times> bool) list \<times> 'e" where
  "repeat_action env_step action 0 e = ([], e)"
| "repeat_action env_step action (Suc k) e =
     (case env_step e action of
        (e', obs, reward, d) \<Rightarrow>
          (if d then ([(obs, reward, d)], e')
           else (case repeat_action env_step action k e' of
                   (rest, e'') \<Rightarrow> ((obs, reward, d) # rest, e''))))"

text \<open>The last two entries of a list (all of it when it is shorter).\<close>

definition last_two :: "'a list \<Rightarrow> 'a list" where
  "last_two xs = drop (length xs - 2) xs"

text \<open>
  A simulator for concrete runs: its state counts the raw steps taken; raw step number \<open>n\<close>
  shows the two-pixel frame \<open>[n, 10 - n]\<close>, pays reward \<open>n\<close>, and the episode ends at the
  third step.
\<close>

definition example_env_step :: "nat \<Rightarrow> int \<Rightarrow> nat \<times> frame \<times> real \<times> bool" where
  "example_env_step e action =
     (Suc e, [of_nat (Suc e), of_nat (10 - Suc e)], real (Suc e), Suc e = 3)"

subsection \<open>\<^verbatim>\<open>ProcessFrame84\<close>\<close>

text \<open>
  The float32 arithmetic of numpy is not modelled; its operations are the fields of
  \<open>float_ops\<close>: the conversion of a byte (\<^verbatim>\<open>astype(np.float32)\<close>), the float of a decimal
  literal, product, sum, and the conversion back to a byte (\<^verbatim>\<open>astype(np.uint8)\<close>).
  \<^verbatim>\<open>cv2.resize(img, (84, 110), interpolation=cv2.INTER_AREA)\<close> is the parameter
  \<open>cv2_resize img (84, 110)\<close>, whose second argument is (width, height).
\<close>

record 'f float_ops =
  of_u8 :: "8 word \<Rightarrow> 'f"
  lit :: "real \<Rightarrow> 'f"
  fmul :: "'f \<Rightarrow> 'f \<Rightarrow> 'f"
  fadd :: "'f \<Rightarrow> 'f \<Rightarrow> 'f"
  to_u8 :: "'f \<Rightarrow> 8 word"

text \<open>
  \<^verbatim>\<open>np.reshape(a, [rows, cols, chans])\<close> of \<open>rows * cols * chans\<close> entries in storage order:
  entry \<open>(r, c, k)\<close> is entry \<open>(r * cols + c) * chans + k\<close> of \<open>a\<close>.
\<close>

definition np_reshape3 :: "nat \<Rightarrow> nat \<Rightarrow> nat \<Rightarrow> 'a list \<Rightarrow> 'a list list list" where
  "np_reshape3 rows cols chans a =
     map (\<lambda>r. map (\<lambda>c. take chans (drop ((r * cols + c) * chans) a)) [0..<cols]) [0..<rows]"

text \<open>
  \<^verbatim>\<open>img[:, :, 0] * 0.299 + img[:, :, 1] * 0.587 + img[:, :, 2] * 0.114\<close>, for one pixel.
\<close>

definition luminance :: "'f float_ops \<Rightarrow> 'f list \<Rightarrow> 'f" where
  "luminance ops px =
     fadd ops (fadd ops (fmul ops (px ! 0) (lit ops 0.299)) (fmul ops (px ! 1) (lit ops 0.587)))
              (fmul ops (px ! 2) (lit ops 0.114))"

text \<open>
  \<^verbatim>\<open>astype(np.float32)\<close> of the reshaped frame, then the weighted sum of its three
  channels: the one-channel picture handed to \<^verbatim>\<open>cv2.resize\<close>.
\<close>

definition gray_image :: "'f float_ops \<Rightarrow> 8 word list list list \<Rightarrow> 'f list list" where
  "gray_image ops img0 = map (map (luminance ops)) (map (map (map (of_u8 ops))) img0)"

text \<open>\<^verbatim>\<open>resized_screen[18:102, :]\<close>\<close>

definition crop_rows :: "'a list \<Rightarrow> 'a list" where
  "crop_rows resized_screen = drop 18 (take 102 resized_screen)"

text \<open>
  The part of \<^verbatim>\<open>process\<close> after the \<^verbatim>\<open>reshape\<close> of the input. \<^verbatim>\<open>np.reshape(x_t, [84, 84, 1])\<close>
  raises \<^verbatim>\<open>ValueError\<close> unless \<open>x_t\<close> has \<open>84 * 84\<close> entries.
\<close>

definition process_img ::
  "'f float_ops \<Rightarrow> ('f list list \<Rightarrow> nat \<times> nat \<Rightarrow> 'f list list) \<Rightarrow> 8 word list list list \<Rightarrow>
     py_error + 8 word list list list" where
  "process_img ops cv2_resize img0 =
     (let resized_screen = cv2_resize (gray_image ops img0) (84, 110);
          x_t = crop_rows resized_screen
      in if length (concat x_t) = 84 * 84
         then Inr (map (map (map (to_u8 ops))) (np_reshape3 84 84 1 (concat x_t)))
         else Inl ValueError)"

definition ProcessFrame84_process ::
  "'f float_ops \<Rightarrow> ('f list list \<Rightarrow> nat \<times> nat \<Rightarrow> 'f list list) \<Rightarrow> 8 word list \<Rightarrow>
     py_error + 8 word list list list" where
  "ProcessFrame84_process ops cv2_resize frame =
     (if length frame = 210 * 160 * 3
      then process_img ops cv2_resize (np_reshape3 210 160 3 frame)
      else if length frame = 250 * 160 * 3
      then process_img ops cv2_resize (np_reshape3 250 160 3 frame)
      else Inl AssertionError)"

text \<open>
  The crop as the design words it: the central \<open>k\<close> rows, as many rows dropped above as
  below. \<open>central_process\<close> is \<^verbatim>\<open>process\<close> with this crop in place of \<open>crop_rows\<close>.
\<close>

definition central_crop :: "nat \<Rightarrow> 'a list \<Rightarrow> 'a list" where
  "central_crop k rows = take k (drop ((length rows - k) div 2) rows)"

definition central_process ::
  "'f float_ops \<Rightarrow> ('f list list \<Rightarrow> nat \<times> nat \<Rightarrow> 'f list list) \<Rightarrow> 8 word list \<Rightarrow>
     py_error + 8 word list list list" where
  "central_process ops cv2_resize frame =
     (if length frame = 210 * 160 * 3 \<or> length frame = 250 * 160 * 3
      then (let gray = gray_image ops (np_reshape3 (length frame div (160 * 3)) 160 3 frame);
                x_t = central_crop 84 (cv2_resize gray (84, 110))
            in Inr (map (map (\<lambda>v. [to_u8 ops v])) x_t))
      else Inl AssertionError)"

text \<open>
  Stand-ins for concrete runs: floats as natural numbers (weights rounded up to 1), and
  a resize that ignores the picture and numbers the rows of its result.
\<close>

definition example_ops :: "nat float_ops" where
  "example_ops = \<lparr>of_u8 = unat, lit = (\<lambda>x. nat \<lceil>x\<rceil>), fmul = (*), fadd = (+), to_u8 = of_nat\<rparr>"

definition example_resize :: "nat list list \<Rightarrow> nat \<times> nat \<Rightarrow> nat list list" where
  "example_resize img dsize = map (\<lambda>i. replicate (fst dsize) i) [0..<snd dsize]"

subsection \<open>Hyperparameters\<close>

definition BATCH_SIZE :: nat where "BATCH_SIZE = 32"
definition GAMMA :: real where "GAMMA = 0.99"
definition EPS_START :: real where "EPS_START = 1.0"
definition EPS_END :: real where "EPS_END = 0.02"
definition EPS_DECAY :: real where "EPS_DECAY = 100000"
definition TARGET_UPDATE :: nat where "TARGET_UPDATE = 1000"
definition INITIAL_MEMORY :: nat where "INITIAL_MEMORY = 10000"
definition REPLAY_MEMORY :: nat where "REPLAY_MEMORY = 10000"
definition total_frames :: nat where "total_frames = 1000000"

subsection \<open>Temporal-difference targets\<close>

text \<open>
  \<^verbatim>\<open>target_network(next_states_v).max(1)[0]\<close>: the maximum of each row of Q-values;
  torch raises \<^verbatim>\<open>RuntimeError\<close> when there is no action to take the maximum over.
\<close>

fun rows_max :: "real list list \<Rightarrow> py_error + real list" where
  "rows_max [] = Inr []"
| "rows_max (q # qs) =
     (if q = [] then Inl RuntimeError
      else (case rows_max qs of Inl e \<Rightarrow> Inl e | Inr ms \<Rightarrow> Inr (fold max (tl q) (hd q) # ms)))"

text \<open>
  \<^verbatim>\<open>next_state_values[done_mask] = 0.0\<close> with a byte mask: the entries whose mask byte is
  not zero are overwritten (\<^verbatim>\<open>IndexError\<close> when the mask has another length).
\<close>

definition mask_fill_zero :: "8 word list \<Rightarrow> real list \<Rightarrow> py_error + real list" where
  "mask_fill_zero done_mask vals =
     (if length done_mask \<noteq> length vals then Inl IndexError
      else Inr (map (\<lambda>(m, v). if m \<noteq> 0 then 0 else v) (zip done_mask vals)))"

text \<open>
  \<^verbatim>\<open>expected_state_action_values = next_state_values * GAMMA + rewards_v\<close>. Both operands
  come from one batch; operands of different lengths are an error here (torch's
  broadcasting of a one-element operand is not modelled).
\<close>

definition expected_values :: "real list \<Rightarrow> real list \<Rightarrow> py_error + real list" where
  "expected_values next_state_values rewards =
     (if length next_state_values \<noteq> length rewards then Inl RuntimeError
      else Inr (map (\<lambda>(v, r). v * GAMMA + r) (zip next_state_values rewards)))"

text \<open>
  The target computation of the training loop; \<open>target_network\<close> is the forward pass of
  the target network on one observation.
\<close>

definition td_targets :: "('s \<Rightarrow> real list) \<Rightarrow> 's batch \<Rightarrow> py_error + real list" where
  "td_targets target_network batch =
     (case batch of
        (states, actions, rewards, dones, next_states) \<Rightarrow>
          (case rows_max (map target_network next_states) of
             Inl e \<Rightarrow> Inl e
           | Inr next_state_values \<Rightarrow>
               (case mask_fill_zero dones next_state_values of
                  Inl e \<Rightarrow> Inl e
                | Inr masked \<Rightarrow> expected_values masked rewards)))"

subsection \<open>Networks, optimizer and the training loop\<close>

text \<open>
  The network is opaque: \<open>forward p s\<close> is the list of Q-values that the network with
  parameter set \<open>p\<close> gives for observation \<open>s\<close>; \<open>backward p states actions expected\<close>
  is the gradient of the mean squared error between the Q-values of the taken actions
  and \<open>expected\<close>, with respect to \<open>p\<close>; \<open>adam\<close> is one optimizer step on a parameter set.
\<close>

record ('p, 'g, 'o, 's) learner =
  forward :: "'p \<Rightarrow> 's \<Rightarrow> real list"
  backward :: "'p \<Rightarrow> 's list \<Rightarrow> int list \<Rightarrow> real list \<Rightarrow> 'g"
  adam :: "'o \<Rightarrow> 'p \<Rightarrow> 'g \<Rightarrow> 'o \<times> 'p"

text \<open>
  The global variables of the training cells. The parameter sets of the two networks
  live in \<open>params\<close>, a heap like the one of the arrays: \<open>q_network\<close> and
  \<open>target_network\<close> are references into it, and so is \<open>optimizer_params\<close>, what
  \<^verbatim>\<open>optim.Adam(q_network.parameters(), ...)\<close> was given.
\<close>

record ('p, 'o, 's) train_state =
  frame_idx :: nat
  state :: 's
  total_reward :: real
  total_rewards :: "real list"
  replay_buffer :: "'s ReplayBuffer"
  params :: "'p list"
  q_network :: nat
  target_network :: nat
  optimizer_params :: nat
  optimizer_state :: 'o

text \<open>
  \<^verbatim>\<open>load_state_dict\<close> copies the values of the source's parameters into the parameters
  of the destination.
\<close>

definition load_state_dict :: "'p list \<Rightarrow> nat \<Rightarrow> nat \<Rightarrow> 'p list" where
  "load_state_dict ps dst src = ps[dst := ps ! src]"

text \<open>
  The hyperparameter cell: two networks are created (with initial parameters \<open>q_init\<close>
  and \<open>t_init\<close>), the target network is loaded from the Q-network, the optimizer gets the
  Q-network's parameters, the replay buffer is created. \<open>state0\<close> is the result of the
  first \<^verbatim>\<open>env.reset()\<close>.
\<close>

definition training_setup :: "'p \<Rightarrow> 'p \<Rightarrow> 'o \<Rightarrow> 's \<Rightarrow> ('p, 'o, 's) train_state" where
  "training_setup q_init t_init opt_init state0 =
     (case alloc [] q_init of
        (ps1, q) \<Rightarrow>
          (case alloc ps1 t_init of
             (ps2, t) \<Rightarrow>
               \<lparr>frame_idx = 0, state = state0, total_reward = 0, total_rewards = [],
                replay_buffer = ReplayBuffer_init REPLAY_MEMORY,
                params = load_state_dict ps2 t q, q_network = q, target_network = t,
                optimizer_params = q, optimizer_state = opt_init\<rparr>))"

text \<open>
  What one iteration takes from outside: the draw of \<^verbatim>\<open>np.random.random()\<close>, the action
  of \<^verbatim>\<open>env.action_space.sample()\<close>, the answer of \<^verbatim>\<open>env.step\<close> to each action
  (next state, reward, done), the observation of \<^verbatim>\<open>env.reset()\<close>, and the permutation
  drawn by \<^verbatim>\<open>np.random.choice\<close>.
\<close>

record 's step_input =
  in_random :: real
  in_sample_action :: int
  in_env_step :: "int \<Rightarrow> 's \<times> real \<times> bool"
  in_env_reset :: 's
  in_perm :: "nat list"

text \<open>
  \<^verbatim>\<open>torch.max(q_vals_v, dim=1)\<close>: the index of a maximal Q-value, here the first one.
\<close>

definition argmax :: "real list \<Rightarrow> py_error + nat" where
  "argmax qs =
     (if qs = [] then Inl RuntimeError
      else Inr (length (takeWhile (\<lambda>q. q \<noteq> fold max (tl qs) (hd qs)) qs)))"

definition select_action ::
  "('p, 'g, 'o, 's) learner \<Rightarrow> 's step_input \<Rightarrow> ('p, 'o, 's) train_state \<Rightarrow> real \<Rightarrow>
     py_error + int" where
  "select_action L inp st epsilon =
     (if in_random inp < epsilon then Inr (in_sample_action inp)
      else (case argmax (forward L (params st ! q_network st) (state st)) of
              Inl e \<Rightarrow> Inl e
            | Inr act \<Rightarrow> Inr (int act)))"

text \<open>
  The \<^verbatim>\<open>if done:\<close> block, without its printing; the flag returned is \<^verbatim>\<open>avg_reward > 19.5\<close>,
  on which the loop breaks. \<^verbatim>\<open>total_rewards[-100:]\<close> are the last 100 entries.
\<close>

definition episode_end ::
  "'s step_input \<Rightarrow> ('p, 'o, 's) train_state \<Rightarrow> ('p, 'o, 's) train_state \<times> bool" where
  "episode_end inp st =
     (let rs = total_rewards st @ [total_reward st];
          recent = drop (length rs - 100) rs;
          avg_reward = sum_list recent / real (length recent)
      in (st\<lparr>total_rewards := rs, state := in_env_reset inp, total_reward := 0\<rparr>,
          avg_reward > 19.5))"

text \<open>\<^verbatim>\<open>target_network.load_state_dict(q_network.state_dict())\<close>\<close>

definition sync_target :: "('p, 'o, 's) train_state \<Rightarrow> ('p, 'o, 's) train_state" where
  "sync_target st = st\<lparr>params := load_state_dict (params st) (target_network st) (q_network st)\<rparr>"

text \<open>
  From \<^verbatim>\<open>optimizer.zero_grad()\<close> to \<^verbatim>\<open>optimizer.step()\<close>: sample a batch, compute the
  targets with the target network, the gradient for the Q-network, and let the optimizer
  overwrite the parameters it holds.
\<close>

definition update ::
  "('p, 'g, 'o, 's) learner \<Rightarrow> 's step_input \<Rightarrow> ('p, 'o, 's) train_state \<Rightarrow>
     py_error + ('p, 'o, 's) train_state" where
  "update L inp st =
     (case ReplayBuffer_sample (replay_buffer st) (in_perm inp) BATCH_SIZE of
        Inl e \<Rightarrow> Inl e
      | Inr batch \<Rightarrow>
          (case td_targets (forward L (params st ! target_network st)) batch of
             Inl e \<Rightarrow> Inl e
           | Inr expected \<Rightarrow>
               (case adam L (optimizer_state st) (params st ! optimizer_params st)
                       (backward L (params st ! q_network st) (fst batch) (fst (snd batch)) expected) of
                  (o', p') \<Rightarrow>
                    Inr (st\<lparr>params := (params st)[optimizer_params st := p'],
                            optimizer_state := o'\<rparr>))))"

text \<open>
  One iteration of the \<^verbatim>\<open>while\<close> loop. The result says how the iteration left
  (\<^verbatim>\<open>break\<close>, or on to the next iteration) and lists, in order, which of the three
  effects it executed: the environment step, the target synchronisation, the gradient
  step.
\<close>

datatype loop_ctl = Continue | Break

datatype event = EnvStep | SyncTarget | GradientStep

definition train_iteration ::
  "('p, 'g, 'o, 's) learner \<Rightarrow> 's step_input \<Rightarrow> ('p, 'o, 's) train_state \<Rightarrow>
     py_error + (('p, 'o, 's) train_state \<times> loop_ctl \<times> event list)" where
  "train_iteration L inp st =
     (let st0 = st\<lparr>frame_idx := frame_idx st + 1\<rparr>;
          epsilon = max EPS_END (EPS_START - real (frame_idx st0) / EPS_DECAY)
      in case select_action L inp st0 epsilon of
           Inl e \<Rightarrow> Inl e
         | Inr action \<Rightarrow>
             (case in_env_step inp action of
                (next_state, reward, dn) \<Rightarrow>
                  (let ex = \<lparr>exp_state = state st0, exp_action = action, exp_reward = reward,
                             exp_done = dn, exp_new_state = next_state\<rparr>;
                       st1 = st0\<lparr>total_reward := total_reward st0 + reward,
                                 replay_buffer := ReplayBuffer_append (replay_buffer st0) ex,
                                 state := next_state\<rparr>;
                       ep = (if dn then episode_end inp st1 else (st1, False));
                       st2 = fst ep
                   in if snd ep then Inr (st2, Break, [EnvStep])
                      else if ReplayBuffer_len (replay_buffer st2) < INITIAL_MEMORY
                      then Inr (st2, Continue, [EnvStep])
                      else (let synced = (frame_idx st2 mod TARGET_UPDATE = 0);
                                st3 = (if synced then sync_target st2 else st2)
                            in case update L inp st3 of
                                 Inl e \<Rightarrow> Inl e
                               | Inr st4 \<Rightarrow>
                                   Inr (st4, Continue,
                                        EnvStep # (if synced then [SyncTarget] else [])
                                          @ [GradientStep])))))"

text \<open>
  The loop \<^verbatim>\<open>while frame_idx < total_frames\<close>, one input per iteration, for as long as
  inputs are given. The result is the state reached and, for each iteration, how it
  left and its effects.
\<close>

fun train_loop ::
  "('p, 'g, 'o, 's) learner \<Rightarrow> ('p, 'o, 's) train_state \<Rightarrow> 's step_input list \<Rightarrow>
     py_error + (('p, 'o, 's) train_state \<times> (loop_ctl \<times> event list) list)" where
  "train_loop L st [] = Inr (st, [])"
| "train_loop L st (inp # inps) =
     (if frame_idx st < total_frames
      then (case train_iteration L inp st of
              Inl e \<Rightarrow> Inl e
            | Inr (st', ctl, evs) \<Rightarrow>
                (case ctl of
                   Break \<Rightarrow> Inr (st', [(ctl, evs)])
                 | Continue \<Rightarrow>
                     (case train_loop L st' inps of
                        Inl e \<Rightarrow> Inl e
                      | Inr (st'', trace) \<Rightarrow> Inr (st'', (ctl, evs) # trace))))
      else Inr (st, []))"

text \<open>What a run of the loop did, iteration by iteration, when it did not raise.\<close>

definition run_trace ::
  "py_error + ('st \<times> (loop_ctl \<times> event list) list) \<Rightarrow> (loop_ctl \<times> event list) list option" where
  "run_trace r = (case r of Inl e \<Rightarrow> None | Inr (st, trace) \<Rightarrow> Some trace)"

text \<open>
  The references of a training state are in order: the two networks are different
  objects of the heap and the optimizer holds the Q-network's parameters.
\<close>

definition nets_ok :: "('p, 'o, 's) train_state \<Rightarrow> bool" where
  "nets_ok st \<longleftrightarrow>
     q_network st < length (params st) \<and> target_network st < length (params st)
     \<and> q_network st \<noteq> target_network st \<and> optimizer_params st = q_network st"

text \<open>
  The inputs of an iteration are usable: the networks give at least one Q-value, and
  the permutation is one of the positions of the replay buffer, as many as it has once
  it is full. \<open>rb_ok\<close>: the replay buffer is the one of the setup, not over its capacity.
\<close>

definition input_ok :: "('p, 'g, 'o, 's) learner \<Rightarrow> 's step_input \<Rightarrow> bool" where
  "input_ok L inp \<longleftrightarrow>
     distinct (in_perm inp) \<and> set (in_perm inp) = {..<REPLAY_MEMORY}
     \<and> (\<forall>p s. forward L p s \<noteq> [])"

definition rb_ok :: "('p, 'o, 's) train_state \<Rightarrow> bool" where
  "rb_ok st \<longleftrightarrow>
     capacity (replay_buffer st) = REPLAY_MEMORY
     \<and> length (buffer (replay_buffer st)) \<le> REPLAY_MEMORY"

text \<open>
  Stand-ins for concrete runs of the loop: a network whose first Q-value is its
  parameter, an optimizer that adds the gradient 1; an environment that always shows
  observation 0 and answers every action with the given reward and termination flag; the
  state after \<open>frames\<close> iterations in which nothing was rewarded, no episode ended and no
  gradient step was made, with \<open>stored\<close> experiences in the replay buffer.
\<close>

definition example_learner :: "(nat, nat, nat, nat) learner" where
  "example_learner =
     \<lparr>forward = (\<lambda>p s. [real p, 0]), backward = (\<lambda>p states actions expected. 1),
      adam = (\<lambda>ostate p g. (Suc ostate, p + g))\<rparr>"

definition idle_experience :: "nat Experience" where
  "idle_experience =
     \<lparr>exp_state = 0, exp_action = 0, exp_reward = 0, exp_done = False, exp_new_state = 0\<rparr>"

definition example_input :: "real \<Rightarrow> bool \<Rightarrow> nat step_input" where
  "example_input reward dn =
     \<lparr>in_random = 0, in_sample_action = 0, in_env_step = (\<lambda>action. (0, reward, dn)),
      in_env_reset = 0, in_perm = [0..<10000]\<rparr>"

definition example_state :: "nat \<Rightarrow> nat \<Rightarrow> (nat, nat, nat) train_state" where
  "example_state frames stored =
     \<lparr>frame_idx = frames, state = 0, total_reward = 0, total_rewards = [],
      replay_buffer = \<lparr>buffer = replicate stored idle_experience, capacity = REPLAY_MEMORY\<rparr>,
      params = [5, 5], q_network = 0, target_network = 1,
      optimizer_params = 0, optimizer_state = 0\<rparr>"

section \<open>Properties\<close>

subsection \<open>The bounded deque\<close>

lemma deque_append_drop:
  "length dq \<le> m \<Longrightarrow> deque_append m dq x = drop (Suc (length dq) - m) (dq @ [x])"
  by (cases dq) (auto simp: deque_append_def Let_def Suc_diff_le)

lemma deque_appends_drop:
  "length dq \<le> m \<Longrightarrow>
   foldl (deque_append m) dq xs = drop (length dq + length xs - m) (dq @ xs)"
proof (induction xs arbitrary: dq)
  case Nil
  then show ?case by simp
next
  case (Cons x xs)
  let ?dq = "deque_append m dq x"
  have b: "?dq = drop (Suc (length dq) - m) (dq @ [x])"
    using Cons.prems by (rule deque_append_drop)
  have l: "length ?dq \<le> m"
    using Cons.prems by (simp add: b)
  have "foldl (deque_append m) ?dq xs = drop (length ?dq + length xs - m) (?dq @ xs)"
    by (rule Cons.IH [OF l])
  also have "\<dots> = drop (length dq + length (x # xs) - m) (dq @ x # xs)"
  proof (cases "Suc (length dq) \<le> m")
    case True
    then show ?thesis by (simp add: b)
  next
    case False
    with Cons.prems have eq: "length dq = m" by simp
    have "?dq = tl (dq @ [x])"
      unfolding b using eq by (cases dq) (simp_all add: drop_Suc)
    then show ?thesis
      using eq by (cases dq) (simp_all add: drop_Suc)
  qed
  finally show ?case by simp
qed


subsection \<open>The frame stack and the arrays handed out\<close>

lemma shift_in_place:
  assumes "arr \<noteq> []"
  shows "(drop 1 arr @ drop (length arr - 1) arr)
           [length (drop 1 arr @ drop (length arr - 1) arr) - 1 := f] = tl arr @ [f]"
    and "drop 1 arr @ drop (length arr - 1) arr \<noteq> []"
proof -
  obtain x xs where arr: "arr = x # xs"
    using assms by (cases arr) auto
  have d: "drop (length xs) (x # xs) = [last (x # xs)]"
    by (induction xs arbitrary: x) simp_all
  show "(drop 1 arr @ drop (length arr - 1) arr)
           [length (drop 1 arr @ drop (length arr - 1) arr) - 1 := f] = tl arr @ [f]"
    by (simp add: arr d)
  show "drop 1 arr @ drop (length arr - 1) arr \<noteq> []"
    by (simp add: arr d)
qed

lemma BufferWrapper_observation_shift:
  assumes "bw_ok h self b"
  shows "BufferWrapper_observation h self f = Inr (h[b := tl (h ! b) @ [f]], b)"
proof -
  have ne: "h ! b \<noteq> []"
    using assms by (auto simp: bw_ok_def)
  have sb: "self_buffer self = Some b"
    using assms by (simp add: bw_ok_def)
  show ?thesis
    unfolding BufferWrapper_observation_def Let_def
    using shift_in_place(1) [OF ne, of f] shift_in_place(2) [OF ne] by (simp add: sb)
qed

lemma bw_ok_shift:
  "bw_ok h self b \<Longrightarrow> bw_ok (h[b := tl (h ! b) @ [f]]) self b"
  by (cases "h ! b") (auto simp: bw_ok_def)

lemma BufferWrapper_pushes_stack:
  "bw_ok h self b \<Longrightarrow>
   BufferWrapper_pushes h self fs = Inr (h[b := drop (length fs) (h ! b @ fs)])"
proof (induction fs arbitrary: h)
  case Nil
  then show ?case by (simp add: bw_ok_def)
next
  case (Cons f fs)
  let ?h = "h[b := tl (h ! b) @ [f]]"
  have ok: "bw_ok ?h self b" using Cons.prems by (rule bw_ok_shift)
  have b: "b < length h" using Cons.prems by (simp add: bw_ok_def)
  have ne: "h ! b \<noteq> []" using Cons.prems by (auto simp: bw_ok_def)
  have "drop (length fs) (?h ! b @ fs) = drop (length (f # fs)) (h ! b @ f # fs)"
    using b ne by (cases "h ! b") simp_all
  then show ?case
    using Cons.IH [OF ok] Cons.prems b
    by (simp add: BufferWrapper_observation_shift)
qed

lemma BufferWrapper_reset_stack:
  assumes "0 < n_steps self"
  shows "BufferWrapper_reset h self f =
           Inr (h @ [replicate (n_steps self - 1) 0 @ [f]],
                self\<lparr>self_buffer := Some (length h)\<rparr>, length h)"
    and "bw_ok (h @ [replicate (n_steps self - 1) 0 @ [f]])
           (self\<lparr>self_buffer := Some (length h)\<rparr>) (length h)"
proof -
  let ?h1 = "h @ [replicate (n_steps self) 0]"
  let ?s1 = "self\<lparr>self_buffer := Some (length h)\<rparr>"
  have ok: "bw_ok ?h1 ?s1 (length h)"
    using assms by (simp add: bw_ok_def)
  obtain n where n: "n_steps self = Suc n" using assms by (cases "n_steps self") auto
  have tl: "tl (replicate (n_steps self) (0::'a)) @ [f] = replicate (n_steps self - 1) 0 @ [f]"
    by (simp add: n)
  show "BufferWrapper_reset h self f =
           Inr (h @ [replicate (n_steps self - 1) 0 @ [f]], ?s1, length h)"
    using BufferWrapper_observation_shift [OF ok, of f] tl
    by (simp add: BufferWrapper_reset_def alloc_def)
  show "bw_ok (h @ [replicate (n_steps self - 1) 0 @ [f]]) ?s1 (length h)"
    using assms by (simp add: bw_ok_def)
qed


lemma BufferWrapper_reset_no_steps:
  "n_steps self = 0 \<Longrightarrow> BufferWrapper_reset h self f = Inl IndexError"
  by (simp add: BufferWrapper_reset_def alloc_def BufferWrapper_observation_def)

lemma env_apply_Step:
  assumes "bw_ok h self b"
  shows "env_apply d (h, self) (Step f) =
           Inr ((h[b := tl (h ! b) @ [f]] @ [map d (tl (h ! b) @ [f])], self), length h)"
proof -
  have b: "b < length h" using assms by (simp add: bw_ok_def)
  show ?thesis
    using b by (simp add: BufferWrapper_observation_shift [OF assms]
        ScaledFloatFrame_observation_def alloc_def)
qed

lemma env_apply_Reset:
  assumes "0 < n_steps self"
  shows "env_apply d (h, self) (Reset f) =
           Inr ((h @ [replicate (n_steps self - 1) 0 @ [f]]
                   @ [map d (replicate (n_steps self - 1) 0 @ [f])],
                 self\<lparr>self_buffer := Some (length h)\<rparr>), Suc (length h))"
  by (simp add: BufferWrapper_reset_stack(1) [OF assms]
      ScaledFloatFrame_observation_def alloc_def nth_append)

lemma env_apply_frame:
  assumes "bw_ok h self b"
  shows "\<exists>h' self' b' r. env_apply d (h, self) c = Inr ((h', self'), r)
           \<and> bw_ok h' self' b' \<and> length h \<le> length h'
           \<and> (\<forall>a<length h. a \<noteq> b \<longrightarrow> h' ! a = h ! a \<and> a \<noteq> b')"
proof (cases c)
  case (Reset f)
  have n: "0 < n_steps self" using assms by (simp add: bw_ok_def)
  have "bw_ok (h @ [replicate (n_steps self - 1) 0 @ [f]]
                   @ [map d (replicate (n_steps self - 1) 0 @ [f])])
          (self\<lparr>self_buffer := Some (length h)\<rparr>) (length h)"
    using n by (simp add: bw_ok_def nth_append)
  then show ?thesis
    unfolding Reset env_apply_Reset [OF n]
    by (intro exI conjI) (auto simp: nth_append)
next
  case (Step f)
  have b: "b < length h" using assms by (simp add: bw_ok_def)
  have "bw_ok (h[b := tl (h ! b) @ [f]] @ [map d (tl (h ! b) @ [f])]) self b"
    using assms by (cases "h ! b") (auto simp: bw_ok_def nth_append)
  then show ?thesis
    unfolding Step env_apply_Step [OF assms]
    by (intro exI conjI) (auto simp: nth_append)
qed

lemma env_run_frame:
  "bw_ok h self b \<Longrightarrow> a < length h \<Longrightarrow> a \<noteq> b \<Longrightarrow>
   \<exists>h' self'. env_run d (h, self) cs = Inr (h', self') \<and> h' ! a = h ! a"
proof (induction cs arbitrary: h self b)
  case Nil
  then show ?case by simp
next
  case (Cons c cs)
  obtain h1 self1 b1 r where
    ap: "env_apply d (h, self) c = Inr ((h1, self1), r)" and
    ok: "bw_ok h1 self1 b1" and le: "length h \<le> length h1" and
    fr: "\<forall>x<length h. x \<noteq> b \<longrightarrow> h1 ! x = h ! x \<and> x \<noteq> b1"
    using env_apply_frame [OF Cons.prems(1), of d c] by blast
  have a1: "a < length h1" using Cons.prems(2) le by simp
  have a2: "a \<noteq> b1" and eq: "h1 ! a = h ! a"
    using fr Cons.prems(2,3) by auto
  obtain h' self' where "env_run d (h1, self1) cs = Inr (h', self')" "h' ! a = h1 ! a"
    using Cons.IH [OF ok a1 a2] by blast
  then show ?case
    by (simp add: ap eq)
qed

lemma env_apply_fresh:
  assumes "env_ok h0 self0" and "env_apply d (h0, self0) c = Inr ((h, self), r)"
  shows "\<exists>b. bw_ok h self b \<and> r \<noteq> b \<and> r < length h \<and> length h0 \<le> r"
proof (cases c)
  case (Reset f)
  have n: "0 < n_steps self0"
    using assms(2) BufferWrapper_reset_no_steps [of self0 h0 f]
    by (cases "n_steps self0") (auto simp: Reset)
  have "bw_ok h self (length h0) \<and> r = Suc (length h0) \<and> length h = Suc (Suc (length h0))"
    using assms(2) n unfolding Reset env_apply_Reset [OF n]
    by (auto simp: bw_ok_def nth_append)
  then show ?thesis by auto
next
  case (Step f)
  obtain b where sb: "self_buffer self0 = Some b"
    using assms(2) by (cases "self_buffer self0")
      (auto simp: Step BufferWrapper_observation_def)
  have ok: "bw_ok h0 self0 b"
    using assms(1) sb by (simp add: env_ok_def)
  have b: "b < length h0" using ok by (simp add: bw_ok_def)
  have "bw_ok h self b \<and> r = length h0 \<and> length h = Suc (length h0)"
    using assms(2) bw_ok_shift [OF ok, of f] b unfolding Step env_apply_Step [OF ok]
    by (auto simp: bw_ok_def nth_append)
  then show ?thesis using b by auto
qed

text \<open>
  C5. With \<open>n_steps = N > 0\<close> (\<^verbatim>\<open>make_env\<close>: 4): \<^verbatim>\<open>reset\<close> leaves the stack with the
  first frame in its last slot and zero frames in the \<open>N - 1\<close> slots before it. From then
  on, after any pushes, \<open>N\<close> further pushes of \<open>fs\<close> leave exactly \<open>fs\<close>, oldest first; and
  after \<open>N + 1\<close> pushes the stack holds the last \<open>N\<close> of them, so the first of these frames
  is gone from it (unless one of the later frames equals it).
\<close>

theorem BufferWrapper_stack_order:
  assumes "0 < n_steps self"
  shows "\<exists>h1 self1 a.
           BufferWrapper_reset h self first_frame = Inr (h1, self1, a)
           \<and> h1 ! a = replicate (n_steps self - 1) 0 @ [first_frame]
           \<and> (\<forall>gs fs. length fs = n_steps self \<longrightarrow>
                 (\<exists>h2. BufferWrapper_pushes h1 self1 (gs @ fs) = Inr h2 \<and> h2 ! a = fs))
           \<and> (\<forall>gs fs. length fs = Suc (n_steps self) \<longrightarrow>
                 (\<exists>h2. BufferWrapper_pushes h1 self1 (gs @ fs) = Inr h2 \<and> h2 ! a = tl fs
                        \<and> (hd fs \<notin> set (tl fs) \<longrightarrow> hd fs \<notin> set (h2 ! a))))"
proof -
  let ?st = "replicate (n_steps self - 1) 0 @ [first_frame]"
  let ?h1 = "h @ [?st]"
  let ?s1 = "self\<lparr>self_buffer := Some (length h)\<rparr>"
  have ok: "bw_ok ?h1 ?s1 (length h)"
    by (rule BufferWrapper_reset_stack(2) [OF assms])
  have len: "length ?st = n_steps self"
    using assms by simp
  have run: "BufferWrapper_pushes ?h1 ?s1 fs
               = Inr (?h1[length h := drop (length fs) (?st @ fs)])" for fs
    using BufferWrapper_pushes_stack [OF ok, of fs] by simp
  have full: "(?h1[length h := drop (length (gs @ fs)) (?st @ gs @ fs)]) ! length h = fs"
    if lfs: "length fs = n_steps self" for gs fs :: "'a list"
  proof -
    have "drop (length (gs @ fs)) (?st @ gs @ fs) = drop (length (?st @ gs)) ((?st @ gs) @ fs)"
      using lfs len by simp
    then show ?thesis by simp
  qed
  have more: "(?h1[length h := drop (length (gs @ fs)) (?st @ gs @ fs)]) ! length h = tl fs"
    if lfs: "length fs = Suc (n_steps self)" for gs fs :: "'a list"
  proof -
    obtain x xs where fs: "fs = x # xs" using lfs by (cases fs) auto
    have "drop (length (gs @ fs)) (?st @ gs @ fs)
            = drop (length (?st @ gs @ [x])) ((?st @ gs @ [x]) @ xs)"
      using lfs len by (simp add: fs)
    then show ?thesis by (simp add: fs)
  qed
  show ?thesis
    apply (rule exI [of _ ?h1], rule exI [of _ ?s1], rule exI [of _ "length h"])
    apply (simp only: BufferWrapper_reset_stack(1) [OF assms] run)
    using full more by simp
qed

theorem BufferWrapper_stack_order_witness:
  "0 < n_steps (BufferWrapper_init 4)
   \<and> BufferWrapper_reset [] (BufferWrapper_init 4) (7::nat)
       = Inr ([[0, 0, 0, 7]], \<lparr>self_buffer = Some 0, n_steps = 4\<rparr>, 0)
   \<and> BufferWrapper_pushes [[0, 0, 0, 7]] \<lparr>self_buffer = Some 0, n_steps = 4\<rparr> [1, 2, 3, 4]
       = Inr [[1, 2, 3, 4]]
   \<and> BufferWrapper_pushes [[0, 0, 0, 7]] \<lparr>self_buffer = Some 0, n_steps = 4\<rparr> [1, 2, 3, 4, 5]
       = Inr [[2, 3, 4, 5]]"
proof -
  have z: "replicate 4 (0::nat) = [0, 0, 0, 0]" "replicate 3 (0::nat) = [0, 0, 0]"
    by (simp_all add: numeral_eq_Suc)
  show ?thesis
    using BufferWrapper_stack_order [of "BufferWrapper_init 4" "[]" "7::nat"]
    by (simp add: BufferWrapper_reset_def BufferWrapper_init_def alloc_def
        BufferWrapper_observation_def Let_def z)
qed

text \<open>
  C1, as the notebook has it. What the environment built by \<^verbatim>\<open>make_env\<close> hands out after
  a \<^verbatim>\<open>reset\<close> or a \<^verbatim>\<open>step\<close> is an array that did not exist before the call and is not
  the wrapper's buffer, and no sequence of later calls changes it. The copy is made by
  \<^verbatim>\<open>ScaledFloatFrame\<close>, the layer above \<^verbatim>\<open>BufferWrapper\<close>.
\<close>

theorem env_observation_is_fresh_copy:
  assumes "env_ok h0 self0" and "env_apply div255 (h0, self0) c = Inr ((h, self), r)"
  shows "length h0 \<le> r \<and> r < length h \<and> self_buffer self \<noteq> Some r
         \<and> (\<exists>h' self'. env_run div255 (h, self) cs = Inr (h', self') \<and> h' ! r = h ! r)"
proof -
  obtain b where ok: "bw_ok h self b" and rb: "r \<noteq> b" and r: "r < length h" "length h0 \<le> r"
    using env_apply_fresh [OF assms] by blast
  have "self_buffer self \<noteq> Some r"
    using ok rb by (auto simp: bw_ok_def)
  then show ?thesis
    using env_run_frame [OF ok r(1) rb, of div255 cs] r by simp
qed


theorem env_observation_is_fresh_copy_witness:
  "env_ok [] (BufferWrapper_init 4)
   \<and> env_apply example_div255 ([], BufferWrapper_init 4) (Reset 255)
       = Inr (([[0, 0, 0, 255], [0, 0, 0, 1]], \<lparr>self_buffer = Some 0, n_steps = 4\<rparr>), 1)
   \<and> (\<exists>h' self'.
         env_run example_div255
           ([[0, 0, 0, 255], [0, 0, 0, 1]], \<lparr>self_buffer = Some 0, n_steps = 4\<rparr>)
           [Step 510, Step 765] = Inr (h', self')
         \<and> h' ! 1 = [0, 0, 0, 1])"
proof -
  have ok: "env_ok [] (BufferWrapper_init 4)"
    by (simp add: env_ok_def BufferWrapper_init_def)
  have z: "replicate 4 (0::nat) = [0, 0, 0, 0]"
    by (simp add: numeral_eq_Suc)
  have ap: "env_apply example_div255 ([], BufferWrapper_init 4) (Reset 255)
       = Inr (([[0, 0, 0, 255], [0, 0, 0, 1]], \<lparr>self_buffer = Some 0, n_steps = 4\<rparr>), 1)"
    by (simp add: BufferWrapper_reset_def BufferWrapper_init_def alloc_def
        BufferWrapper_observation_def Let_def z
        ScaledFloatFrame_observation_def example_div255_def)
  show ?thesis
    using env_observation_is_fresh_copy [OF ok ap, of "[Step 510, Step 765]"] ok ap
    by simp
qed

text \<open>
  C1, as stated, fails for \<^verbatim>\<open>BufferWrapper\<close> itself: \<^verbatim>\<open>reset\<close> returns reference 0, the
  buffer, holding \<open>[0, 0, 0, 1]\<close>; the next push returns the same reference, and the array
  behind it now holds \<open>[0, 0, 1, 2]\<close>.
\<close>

theorem BufferWrapper_returns_its_buffer:
  "BufferWrapper_reset [] (BufferWrapper_init 4) (1::nat)
     = Inr ([[0, 0, 0, 1]], \<lparr>self_buffer = Some 0, n_steps = 4\<rparr>, 0)
   \<and> BufferWrapper_observation [[0, 0, 0, 1]] \<lparr>self_buffer = Some 0, n_steps = 4\<rparr> 2
     = Inr ([[0, 0, 1, 2]], 0)
   \<and> [[0, 0, 1, 2::nat]] ! 0 \<noteq> [[0, 0, 0, 1]] ! 0"
proof -
  have z: "replicate 4 (0::nat) = [0, 0, 0, 0]"
    by (simp add: numeral_eq_Suc)
  show ?thesis
    by (simp add: BufferWrapper_reset_def BufferWrapper_init_def alloc_def
        BufferWrapper_observation_def Let_def z)
qed

subsection \<open>Frame preprocessing\<close>

lemma concat_nth_uniform:
  "\<forall>row \<in> set xss. length row = C \<Longrightarrow> r < length xss \<Longrightarrow> c < C \<Longrightarrow>
   r * C + c < length (concat xss) \<and> concat xss ! (r * C + c) = xss ! r ! c"
proof (induction xss arbitrary: r)
  case Nil
  then show ?case by simp
next
  case (Cons xs xss)
  have len: "length xs = C" using Cons.prems(1) by simp
  show ?case
  proof (cases r)
    case 0
    then show ?thesis using Cons.prems(3) len by (simp add: nth_append)
  next
    case (Suc r')
    have ih: "r' * C + c < length (concat xss) \<and> concat xss ! (r' * C + c) = xss ! r' ! c"
      using Cons.IH [of r'] Cons.prems Suc by simp
    have idx: "Suc r' * C + c = length xs + (r' * C + c)"
      by (simp add: len)
    show ?thesis
      unfolding Suc idx using ih by (simp add: nth_append)
  qed
qed

lemma take_one_drop:
  "i < length xs \<Longrightarrow> take (Suc 0) (drop i xs) = [xs ! i]"
  by (simp add: Cons_nth_drop_Suc [symmetric])

lemma np_reshape3_one_channel:
  assumes "length xss = R" and "\<forall>row \<in> set xss. length row = C"
  shows "np_reshape3 R C (Suc 0) (concat xss) = map (map (\<lambda>v. [v])) xss"
proof (rule nth_equalityI)
  show "length (np_reshape3 R C (Suc 0) (concat xss)) = length (map (map (\<lambda>v. [v])) xss)"
    using assms(1) by (simp add: np_reshape3_def)
next
  fix r assume "r < length (np_reshape3 R C (Suc 0) (concat xss))"
  then have r: "r < length xss"
    using assms(1) by (simp add: np_reshape3_def)
  have row: "length (xss ! r) = C"
    using assms(2) r by simp
  have "map (\<lambda>c. take (Suc 0) (drop (r * C + c) (concat xss))) [0..<C] = map (\<lambda>v. [v]) (xss ! r)"
  proof (rule nth_equalityI)
    show "length (map (\<lambda>c. take (Suc 0) (drop (r * C + c) (concat xss))) [0..<C])
            = length (map (\<lambda>v. [v]) (xss ! r))"
      by (simp add: row)
  next
    fix c assume "c < length (map (\<lambda>c. take (Suc 0) (drop (r * C + c) (concat xss))) [0..<C])"
    then have c: "c < C" by simp
    show "map (\<lambda>c. take (Suc 0) (drop (r * C + c) (concat xss))) [0..<C] ! c
            = map (\<lambda>v. [v]) (xss ! r) ! c"
      using concat_nth_uniform [OF assms(2) r c] c row by (simp add: take_one_drop)
  qed
  then show "np_reshape3 R C (Suc 0) (concat xss) ! r = map (map (\<lambda>v. [v])) xss ! r"
    using r assms(1) by (simp add: np_reshape3_def)
qed

lemma crop_rows_shape:
  assumes "length rows = 110" and "\<forall>row \<in> set rows. length row = 84"
  shows "length (crop_rows rows) = 84" and "\<forall>row \<in> set (crop_rows rows). length row = 84"
    and "\<forall>i<84. crop_rows rows ! i = rows ! (i + 18)"
proof -
  show "length (crop_rows rows) = 84"
    using assms(1) by (simp add: crop_rows_def)
  show "\<forall>row \<in> set (crop_rows rows). length row = 84"
    using assms(2) by (auto simp: crop_rows_def dest!: in_set_dropD in_set_takeD)
  show "\<forall>i<84. crop_rows rows ! i = rows ! (i + 18)"
    using assms(1) by (simp add: crop_rows_def add.commute)
qed

lemma length_concat_uniform:
  "\<forall>row \<in> set xss. length row = C \<Longrightarrow> length (concat xss) = length xss * C"
  by (induction xss) simp_all

lemma process_img_crop:
  assumes "length (cv2_resize (gray_image ops img) (84, 110)) = 110"
    and "\<forall>row \<in> set (cv2_resize (gray_image ops img) (84, 110)). length row = 84"
  shows "process_img ops cv2_resize img =
           Inr (map (map (\<lambda>v. [to_u8 ops v])) (crop_rows (cv2_resize (gray_image ops img) (84, 110))))"
proof -
  let ?x = "crop_rows (cv2_resize (gray_image ops img) (84, 110))"
  have sh: "length ?x = 84" "\<forall>row \<in> set ?x. length row = 84"
    using crop_rows_shape [OF assms] by auto
  have n: "length (concat ?x) = 84 * 84"
    using length_concat_uniform [OF sh(2)] sh(1) by simp
  have "map (map (map (to_u8 ops))) (np_reshape3 84 84 1 (concat ?x))
          = map (map (\<lambda>v. [to_u8 ops v])) ?x"
    by (simp add: np_reshape3_one_channel [OF sh] o_def)
  then show ?thesis
    using n by (simp add: process_img_def Let_def)
qed

lemma np_reshape3_pixel:
  assumes "length a = R * C * 3" and "r < R" and "c < C"
  shows "np_reshape3 R C 3 a ! r ! c =
           [a ! ((r * C + c) * 3), a ! ((r * C + c) * 3 + 1), a ! ((r * C + c) * 3 + 2)]"
proof -
  let ?k = "(r * C + c) * 3"
  have "r * C + c < R * C"
  proof -
    have "r * C + c < r * C + C" using assms(3) by simp
    also have "\<dots> = Suc r * C" by simp
    also have "\<dots> \<le> R * C" using assms(2) by (intro mult_le_mono1) simp
    finally show ?thesis .
  qed
  then have k: "?k + 3 \<le> length a"
    using assms(1) by simp
  have "take 3 (drop ?k a) = [a ! ?k, a ! (?k + 1), a ! (?k + 2)]"
  proof (rule nth_equalityI)
    show "length (take 3 (drop ?k a)) = length [a ! ?k, a ! (?k + 1), a ! (?k + 2)]"
      using k by simp
  next
    fix i assume "i < length (take 3 (drop ?k a))"
    then have "i < 3" by simp
    then have "i = 0 \<or> i = 1 \<or> i = 2" by linarith
    then show "take 3 (drop ?k a) ! i = [a ! ?k, a ! (?k + 1), a ! (?k + 2)] ! i"
      using k by auto
  qed
  then show ?thesis
    using assms(2,3) by (simp add: np_reshape3_def)
qed


text \<open>
  C2, as the notebook has it. For a frame of \<open>210 * 160 * 3\<close> or \<open>250 * 160 * 3\<close> bytes,
  and a resize that returns 110 rows of 84 values for the gray picture of this frame:
  \<^verbatim>\<open>process\<close> returns an image of 84 rows of 84 pixels of one byte each; pixel \<open>(i, j)\<close> is
  the byte of the value at row \<open>i + 18\<close>, column \<open>j\<close> of the resized picture, so the crop
  keeps rows 18 to 101 of the 110; and pixel \<open>(r, c)\<close> of the gray picture is the sum of
  the three channel bytes of pixel \<open>(r, c)\<close> of the frame, weighted by 0.299, 0.587 and
  0.114 in this order.
\<close>

theorem ProcessFrame84_process_crop:
  assumes "length frame = 210 * 160 * 3 \<or> length frame = 250 * 160 * 3"
    and "resized = cv2_resize
           (gray_image ops (np_reshape3 (length frame div (160 * 3)) 160 3 frame)) (84, 110)"
    and "length resized = 110" and "\<forall>row \<in> set resized. length row = 84"
  shows "(\<exists>x_t. ProcessFrame84_process ops cv2_resize frame = Inr x_t \<and> length x_t = 84
            \<and> (\<forall>i<84. length (x_t ! i) = 84
                  \<and> (\<forall>j<84. x_t ! i ! j = [to_u8 ops (resized ! (i + 18) ! j)])))
         \<and> (\<forall>r<length frame div (160 * 3). \<forall>c<160.
               gray_image ops (np_reshape3 (length frame div (160 * 3)) 160 3 frame) ! r ! c =
                 fadd ops
                   (fadd ops (fmul ops (of_u8 ops (frame ! ((r * 160 + c) * 3))) (lit ops 0.299))
                             (fmul ops (of_u8 ops (frame ! ((r * 160 + c) * 3 + 1))) (lit ops 0.587)))
                   (fmul ops (of_u8 ops (frame ! ((r * 160 + c) * 3 + 2))) (lit ops 0.114)))"
proof
  let ?H = "length frame div (160 * 3)"
  let ?img = "np_reshape3 ?H 160 3 frame"
  have pr: "ProcessFrame84_process ops cv2_resize frame = process_img ops cv2_resize ?img"
    using assms(1) by (auto simp: ProcessFrame84_process_def)
  have sh: "length (cv2_resize (gray_image ops ?img) (84, 110)) = 110"
    "\<forall>row \<in> set (cv2_resize (gray_image ops ?img) (84, 110)). length row = 84"
    using assms(2,3,4) by auto
  have res: "ProcessFrame84_process ops cv2_resize frame =
               Inr (map (map (\<lambda>v. [to_u8 ops v])) (crop_rows resized))"
    unfolding pr assms(2)
    by (rule process_img_crop [where cv2_resize = cv2_resize and ops = ops and img = ?img,
          OF sh])
  have cr: "length (crop_rows resized) = 84" "\<forall>row \<in> set (crop_rows resized). length row = 84"
    "\<forall>i<84. crop_rows resized ! i = resized ! (i + 18)"
    using crop_rows_shape [OF assms(3,4)] by auto
  let ?out = "map (map (\<lambda>v. [to_u8 ops v])) (crop_rows resized)"
  have row: "length (?out ! i) = 84
          \<and> (\<forall>j<84. ?out ! i ! j = [to_u8 ops (resized ! (i + 18) ! j)])" if i: "i < 84" for i
  proof -
    have "crop_rows resized ! i \<in> set (crop_rows resized)"
      using i cr(1) by simp
    then have l: "length (crop_rows resized ! i) = 84"
      using cr(2) by blast
    have e: "crop_rows resized ! i = resized ! (i + 18)"
      using i cr(3) by blast
    show ?thesis
      using i l cr(1) by (simp add: e [symmetric])
  qed
  have rows: "\<forall>i<84. length (?out ! i) = 84
          \<and> (\<forall>j<84. ?out ! i ! j = [to_u8 ops (resized ! (i + 18) ! j)])"
    using row by blast
  have lo: "length ?out = 84"
    using cr(1) by simp
  show "\<exists>x_t. ProcessFrame84_process ops cv2_resize frame = Inr x_t \<and> length x_t = 84
            \<and> (\<forall>i<84. length (x_t ! i) = 84
                  \<and> (\<forall>j<84. x_t ! i ! j = [to_u8 ops (resized ! (i + 18) ! j)]))"
    by (rule exI [of _ ?out], intro conjI) (rule res, rule lo, rule rows)
next
  let ?H = "length frame div (160 * 3)"
  have len: "length frame = ?H * 160 * 3"
    using assms(1) by auto
  show "\<forall>r<?H. \<forall>c<160.
               gray_image ops (np_reshape3 ?H 160 3 frame) ! r ! c =
                 fadd ops
                   (fadd ops (fmul ops (of_u8 ops (frame ! ((r * 160 + c) * 3))) (lit ops 0.299))
                             (fmul ops (of_u8 ops (frame ! ((r * 160 + c) * 3 + 1))) (lit ops 0.587)))
                   (fmul ops (of_u8 ops (frame ! ((r * 160 + c) * 3 + 2))) (lit ops 0.114))"
  proof (intro allI impI)
    fix r c :: nat
    assume r: "r < ?H" and c: "c < 160"
    have lr: "length (np_reshape3 ?H 160 3 frame) = ?H"
      and lc: "length (np_reshape3 ?H 160 3 frame ! r) = 160"
      using r by (simp_all add: np_reshape3_def)
    show "gray_image ops (np_reshape3 ?H 160 3 frame) ! r ! c =
                 fadd ops
                   (fadd ops (fmul ops (of_u8 ops (frame ! ((r * 160 + c) * 3))) (lit ops 0.299))
                             (fmul ops (of_u8 ops (frame ! ((r * 160 + c) * 3 + 1))) (lit ops 0.587)))
                   (fmul ops (of_u8 ops (frame ! ((r * 160 + c) * 3 + 2))) (lit ops 0.114))"
      using r c lr lc np_reshape3_pixel [OF len r c]
      by (simp add: gray_image_def luminance_def)
  qed
qed

theorem ProcessFrame84_process_crop_witness:
  "length (replicate 100800 (0::8 word)) = 210 * 160 * 3
   \<and> length (example_resize
        (gray_image example_ops
           (np_reshape3 (length (replicate 100800 (0::8 word)) div (160 * 3)) 160 3
              (replicate 100800 0))) (84, 110)) = 110
   \<and> (\<exists>x_t. ProcessFrame84_process example_ops example_resize (replicate 100800 0) = Inr x_t
             \<and> length x_t = 84 \<and> x_t ! 0 ! 0 = [18])"
proof -
  let ?g = "gray_image example_ops
           (np_reshape3 (length (replicate 100800 (0::8 word)) div (160 * 3)) 160 3
              (replicate 100800 0))"
  have a1: "length (replicate 100800 (0::8 word)) = 210 * 160 * 3
              \<or> length (replicate 100800 (0::8 word)) = 250 * 160 * 3"
    by simp
  have a3: "length (example_resize ?g (84, 110)) = 110"
    by (simp add: example_resize_def)
  have a4: "\<forall>row \<in> set (example_resize ?g (84, 110)). length row = 84"
    by (auto simp: example_resize_def)
  have v: "example_resize ?g (84, 110) ! (0 + 18) ! 0 = 18"
    by (simp add: example_resize_def)
  show ?thesis
    using ProcessFrame84_process_crop
      [where frame = "replicate 100800 0" and ops = example_ops
         and cv2_resize = example_resize and resized = "example_resize ?g (84, 110)",
       OF a1 refl a3 a4] a3 v
    by (auto simp: example_ops_def)
qed

text \<open>
  C2, as stated, fails on the crop: it does not keep the central 84 rows (13 to 96).
  With a resize whose row \<open>i\<close> holds the value \<open>i\<close> everywhere, the image that
  \<^verbatim>\<open>process\<close> returns starts at row 18, the centrally cropped one at row 13.
\<close>

theorem ProcessFrame84_crop_not_central:
  "ProcessFrame84_process example_ops example_resize (replicate 100800 0)
     = Inr (map (\<lambda>i. replicate 84 [of_nat i]) [18..<102])
   \<and> central_process example_ops example_resize (replicate 100800 0)
     = Inr (map (\<lambda>i. replicate 84 [of_nat i]) [13..<97])
   \<and> ProcessFrame84_process example_ops example_resize (replicate 100800 0)
     \<noteq> central_process example_ops example_resize (replicate 100800 0)"
proof -
  let ?g = "gray_image example_ops (np_reshape3 210 160 3 (replicate 100800 0))"
  have sh: "length (example_resize ?g (84, 110)) = 110"
    "\<forall>row \<in> set (example_resize ?g (84, 110)). length row = 84"
    by (auto simp: example_resize_def)
  have cr: "crop_rows (example_resize ?g (84, 110)) = map (\<lambda>i. replicate 84 i) [18..<102]"
    by (simp add: crop_rows_def example_resize_def take_map drop_map del: upt_rec_numeral)
  have ce: "central_crop 84 (example_resize ?g (84, 110)) = map (\<lambda>i. replicate 84 i) [13..<97]"
    by (simp add: central_crop_def example_resize_def take_map drop_map del: upt_rec_numeral)
  have u8: "to_u8 example_ops = of_nat"
    by (simp add: example_ops_def)
  have p0: "ProcessFrame84_process example_ops example_resize (replicate 100800 0)
              = process_img example_ops example_resize
                  (np_reshape3 210 160 3 (replicate 100800 0))"
    by (simp add: ProcessFrame84_process_def)
  have p: "ProcessFrame84_process example_ops example_resize (replicate 100800 0)
             = Inr (map (\<lambda>i. replicate 84 [of_nat i]) [18..<102])"
    unfolding p0
      process_img_crop
        [where cv2_resize = example_resize and ops = example_ops
           and img = "np_reshape3 210 160 3 (replicate 100800 0)", OF sh] cr u8
    by (simp add: o_def del: upt_rec_numeral)
  have c: "central_process example_ops example_resize (replicate 100800 0)
             = Inr (map (\<lambda>i. replicate 84 [of_nat i]) [13..<97])"
    by (simp add: central_process_def ce u8 o_def del: upt_rec_numeral)
  have "hd (map (\<lambda>i. replicate 84 [of_nat i :: 8 word]) [18..<102])
          \<noteq> hd (map (\<lambda>i. replicate 84 [of_nat i]) [13..<97])"
    by (simp add: hd_map del: upt_rec_numeral)
  then have ne: "map (\<lambda>i. replicate 84 [of_nat i :: 8 word]) [18..<102]
               \<noteq> map (\<lambda>i. replicate 84 [of_nat i]) [13..<97]"
    by metis
  show ?thesis
  proof (intro conjI)
    show "ProcessFrame84_process example_ops example_resize (replicate 100800 0)
            = Inr (map (\<lambda>i. replicate 84 [of_nat i]) [18..<102])"
      by (rule p)
    show "central_process example_ops example_resize (replicate 100800 0)
            = Inr (map (\<lambda>i. replicate 84 [of_nat i]) [13..<97])"
      by (rule c)
    show "ProcessFrame84_process example_ops example_resize (replicate 100800 0)
            \<noteq> central_process example_ops example_resize (replicate 100800 0)"
      unfolding p c using ne by (simp only: sum.inject not_False_eq_True)
  qed
qed

subsection \<open>Temporal-difference targets\<close>

lemma rows_max_Max:
  "\<forall>q \<in> set qs. q \<noteq> [] \<Longrightarrow> rows_max qs = Inr (map (\<lambda>q. Max (set q)) qs)"
proof (induction qs)
  case Nil
  then show ?case by simp
next
  case (Cons q qs)
  then obtain x xs where q: "q = x # xs" by (cases q) auto
  have "fold max xs x = Max (set (x # xs))"
    by (simp only: Max.set_eq_fold)
  then show ?case
    using Cons by (simp add: q)
qed

lemma td_targets_rows:
  assumes "\<forall>s. target_net s \<noteq> []"
  shows "td_targets target_net
           (map exp_state rows, map exp_action rows, map exp_reward rows,
            map (\<lambda>e. if exp_done e then 1 else 0) rows, map exp_new_state rows)
         = Inr (map (\<lambda>e. (if exp_done e then 0 else Max (set (target_net (exp_new_state e))))
                           * GAMMA + exp_reward e) rows)"
proof -
  have rm: "rows_max (map (\<lambda>e. target_net (exp_new_state e)) rows)
              = Inr (map (\<lambda>e. Max (set (target_net (exp_new_state e)))) rows)"
    using assms rows_max_Max [of "map (\<lambda>e. target_net (exp_new_state e)) rows"]
    by (simp add: o_def)
  show ?thesis
    by (simp add: td_targets_def rm mask_fill_zero_def expected_values_def
        zip_map_map zip_map1 zip_map2 zip_same_conv_map o_def)
qed

text \<open>
  C4. For a batch made of the sampled experiences \<open>rows\<close>, and a target network that
  gives at least one Q-value per observation, the target of each experience is its
  reward plus 0.99 times the largest Q-value of the target network on its next state
  when it is not terminal, and its reward alone when it is terminal, whatever the
  target network gives on its next state.
\<close>

theorem td_targets_bootstrap:
  assumes "\<forall>s. target_net s \<noteq> []" and "unzip5 rows = Inr batch"
  shows "\<exists>ts. td_targets target_net batch = Inr ts \<and> length ts = length rows
           \<and> (\<forall>i<length rows.
                 ts ! i = (if exp_done (rows ! i) then exp_reward (rows ! i)
                           else exp_reward (rows ! i)
                                + 0.99 * Max (set (target_net (exp_new_state (rows ! i))))))"
proof -
  have batch: "batch = (map exp_state rows, map exp_action rows, map exp_reward rows,
                map (\<lambda>e. if exp_done e then 1 else 0) rows, map exp_new_state rows)"
    using assms(2) by (auto simp: unzip5_def split: if_splits)
  show ?thesis
    unfolding batch td_targets_rows [OF assms(1)] by (auto simp: GAMMA_def)
qed

theorem td_targets_bootstrap_witness:
  "(\<forall>s. forward example_learner 3 s \<noteq> [])
   \<and> unzip5 [example_experience 5, (example_experience 6)\<lparr>exp_done := True\<rparr>]
       = Inr ([5, 6], [0, 0], [1, 1], [0, 1], [6, 7])
   \<and> td_targets (forward example_learner 3) ([5, 6], [0, 0], [1, 1], [0, 1], [6, 7])
       = Inr [1 + 0.99 * 3, 1]"
proof -
  have a1: "\<forall>s. forward example_learner 3 s \<noteq> []"
    by (simp add: example_learner_def)
  have a2: "unzip5 [example_experience 5, (example_experience 6)\<lparr>exp_done := True\<rparr>]
       = Inr ([5, 6], [0, 0], [1, 1], [0, 1], [6, 7])"
    by (simp add: unzip5_def example_experience_def)
  show ?thesis
    using td_targets_bootstrap [OF a1 a2] a1 a2
    by (simp add: td_targets_def mask_fill_zero_def expected_values_def GAMMA_def
        example_learner_def)
qed

subsection \<open>The replay buffer\<close>

lemma ReplayBuffer_append_capacity [simp]:
  "capacity (ReplayBuffer_append rb e) = capacity rb"
  by (simp add: ReplayBuffer_append_def)

lemma ReplayBuffer_appends_capacity [simp]:
  "capacity (foldl ReplayBuffer_append rb es) = capacity rb"
  by (induction es arbitrary: rb) simp_all

lemma ReplayBuffer_appends_deque:
  "buffer (foldl ReplayBuffer_append rb es) = foldl (deque_append (capacity rb)) (buffer rb) es"
  by (induction es arbitrary: rb) (simp_all add: ReplayBuffer_append_def)

lemma ReplayBuffer_appends_buffer:
  "length (buffer rb) \<le> capacity rb \<Longrightarrow>
   buffer (foldl ReplayBuffer_append rb es) =
     drop (length (buffer rb) + length es - capacity rb) (buffer rb @ es)"
  by (simp add: ReplayBuffer_appends_deque deque_appends_drop)

text \<open>
  C6. A replay buffer created with capacity \<open>C\<close> and then given the experiences \<open>es\<close>, one
  \<^verbatim>\<open>append\<close> each, holds the last \<open>C\<close> of them in insertion order: its size never exceeds
  \<open>C\<close>, and after \<open>C + 1\<close> appends it holds exactly \<open>C\<close> experiences, all but the first one
  appended.
\<close>

theorem ReplayBuffer_ring_semantics:
  "buffer (foldl ReplayBuffer_append (ReplayBuffer_init C) es) = drop (length es - C) es
   \<and> ReplayBuffer_len (foldl ReplayBuffer_append (ReplayBuffer_init C) es) \<le> C
   \<and> (length es = Suc C \<longrightarrow>
        buffer (foldl ReplayBuffer_append (ReplayBuffer_init C) es) = tl es
        \<and> ReplayBuffer_len (foldl ReplayBuffer_append (ReplayBuffer_init C) es) = C)"
proof -
  have b: "buffer (foldl ReplayBuffer_append (ReplayBuffer_init C) es) = drop (length es - C) es"
    using ReplayBuffer_appends_buffer [of "ReplayBuffer_init C" es]
    by (simp add: ReplayBuffer_init_def)
  show ?thesis
    by (simp add: b ReplayBuffer_len_def drop_Suc)
qed

theorem ReplayBuffer_ring_semantics_witness:
  "length [example_experience 1, example_experience 2, example_experience 3] = Suc 2
   \<and> buffer (foldl ReplayBuffer_append (ReplayBuffer_init 2)
        [example_experience 1, example_experience 2, example_experience 3])
     = [example_experience 2, example_experience 3]"
  using ReplayBuffer_ring_semantics
    [where C = 2 and es = "[example_experience 1, example_experience 2, example_experience 3]"]
  by simp

subsection \<open>Sampling\<close>

lemma getitems_map:
  "\<forall>i \<in> set indices. i < length xs \<Longrightarrow> getitems xs indices = Inr (map ((!) xs) indices)"
  by (induction indices) simp_all

lemma take_perm_indices:
  assumes "distinct perm" and "set perm = {..<n}" and "k \<le> n"
  shows "distinct (take k perm) \<and> length (take k perm) = k \<and> set (take k perm) \<subseteq> {..<n}"
proof -
  have "length perm = n"
    using assms(1,2) distinct_card [of perm] by simp
  then show ?thesis
    using assms by (auto dest: in_set_takeD)
qed

text \<open>
  C7, as the notebook has it. With \<open>perm\<close> a permutation of the positions of the store
  and \<open>1 \<le> batch_size \<le>\<close> the size of the store, \<^verbatim>\<open>sample\<close> returns the experiences at
  \<open>batch_size\<close> pairwise different positions of the store (pairwise different experiences
  when the stored ones are), as five parallel sequences; with \<open>batch_size\<close> greater than
  the size it raises \<^verbatim>\<open>ValueError\<close>.
\<close>

theorem ReplayBuffer_sample_distinct_positions:
  assumes "distinct perm" and "set perm = {..<length (buffer rb)}"
  shows "(0 < batch_size \<and> batch_size \<le> length (buffer rb) \<longrightarrow>
            (\<exists>indices rows.
               distinct indices \<and> length indices = batch_size
               \<and> set indices \<subseteq> {..<length (buffer rb)}
               \<and> rows = map ((!) (buffer rb)) indices
               \<and> set rows \<subseteq> set (buffer rb)
               \<and> (distinct (buffer rb) \<longrightarrow> distinct rows)
               \<and> ReplayBuffer_sample rb perm batch_size =
                    Inr (map exp_state rows, map exp_action rows, map exp_reward rows,
                         map (\<lambda>e. if exp_done e then 1 else 0) rows, map exp_new_state rows)))
         \<and> (length (buffer rb) < batch_size \<longrightarrow>
              ReplayBuffer_sample rb perm batch_size = Inl ValueError)"
proof (intro conjI impI)
  assume "length (buffer rb) < batch_size"
  then show "ReplayBuffer_sample rb perm batch_size = Inl ValueError"
    by (simp add: ReplayBuffer_sample_def random_choice_def)
next
  assume bs: "0 < batch_size \<and> batch_size \<le> length (buffer rb)"
  let ?idx = "take batch_size perm"
  let ?rows = "map ((!) (buffer rb)) ?idx"
  have idx: "distinct ?idx" "length ?idx = batch_size" "set ?idx \<subseteq> {..<length (buffer rb)}"
    using take_perm_indices [OF assms, of batch_size] bs by auto
  have rng: "\<forall>i \<in> set ?idx. i < length (buffer rb)"
    using idx(3) by auto
  have sub: "set ?rows \<subseteq> set (buffer rb)"
    using rng by auto
  have dist: "distinct ?rows" if d: "distinct (buffer rb)"
    unfolding distinct_map
  proof
    show "distinct ?idx" by (rule idx(1))
    show "inj_on ((!) (buffer rb)) (set ?idx)"
      using d rng by (auto simp: inj_on_def nth_eq_iff_index_eq)
  qed
  have ne: "?rows \<noteq> []"
    using idx(2) bs by auto
  have "ReplayBuffer_sample rb perm batch_size =
          Inr (map exp_state ?rows, map exp_action ?rows, map exp_reward ?rows,
               map (\<lambda>e. if exp_done e then 1 else 0) ?rows, map exp_new_state ?rows)"
    using bs ne by (simp add: ReplayBuffer_sample_def random_choice_def getitems_map [OF rng]
        unzip5_def del: map_map)
  then show "\<exists>indices rows.
               distinct indices \<and> length indices = batch_size
               \<and> set indices \<subseteq> {..<length (buffer rb)}
               \<and> rows = map ((!) (buffer rb)) indices
               \<and> set rows \<subseteq> set (buffer rb)
               \<and> (distinct (buffer rb) \<longrightarrow> distinct rows)
               \<and> ReplayBuffer_sample rb perm batch_size =
                    Inr (map exp_state rows, map exp_action rows, map exp_reward rows,
                         map (\<lambda>e. if exp_done e then 1 else 0) rows, map exp_new_state rows)"
    using idx sub dist by blast
qed

theorem ReplayBuffer_sample_distinct_positions_witness:
  "distinct [2, 0, 1::nat]
   \<and> set [2, 0, 1] = {..<length (buffer \<lparr>buffer = [example_experience 5, example_experience 6,
                                                   example_experience 7], capacity = 3\<rparr>)}
   \<and> ReplayBuffer_sample
        \<lparr>buffer = [example_experience 5, example_experience 6, example_experience 7],
         capacity = 3\<rparr> [2, 0, 1] 2
       = Inr ([7, 5], [0, 0], [1, 1], [0, 0], [8, 6])
   \<and> ReplayBuffer_sample
        \<lparr>buffer = [example_experience 5, example_experience 6, example_experience 7],
         capacity = 3\<rparr> [2, 0, 1] 4
       = Inl ValueError"
proof -
  have s: "set [2, 0, 1] = {..<length (buffer \<lparr>buffer = [example_experience 5,
             example_experience 6, example_experience 7], capacity = 3\<rparr>)}"
    by (auto simp: lessThan_def)
  have d: "distinct [2, 0, 1::nat]" by simp
  show ?thesis
    using ReplayBuffer_sample_distinct_positions [OF d s, of 2]
      ReplayBuffer_sample_distinct_positions [OF d s, of 4] d s
    by (simp add: ReplayBuffer_sample_def random_choice_def unzip5_def example_experience_def)
qed

text \<open>
  C7, as stated, fails at \<open>batch_size = 0\<close>, which is not greater than the size of the
  store: \<^verbatim>\<open>zip(*[])\<close> yields nothing to unpack into the five sequences, and \<^verbatim>\<open>sample\<close>
  raises instead of returning an empty batch.
\<close>

theorem ReplayBuffer_sample_empty_batch_raises:
  "ReplayBuffer_sample \<lparr>buffer = [example_experience 5], capacity = 3\<rparr> [0] 0 = Inl ValueError"
  by (simp add: ReplayBuffer_sample_def random_choice_def unzip5_def)


subsection \<open>The training loop\<close>

lemma select_action_ok:
  "\<forall>p s. forward L p s \<noteq> [] \<Longrightarrow> \<exists>a. select_action L inp st eps = Inr a"
  by (simp add: select_action_def argmax_def)

lemma episode_end_frame:
  "params (fst (episode_end inp st)) = params st"
  "replay_buffer (fst (episode_end inp st)) = replay_buffer st"
  "frame_idx (fst (episode_end inp st)) = frame_idx st"
  "q_network (fst (episode_end inp st)) = q_network st"
  "target_network (fst (episode_end inp st)) = target_network st"
  "optimizer_params (fst (episode_end inp st)) = optimizer_params st"
  by (simp_all add: episode_end_def Let_def)

lemma sync_target_frame:
  "replay_buffer (sync_target st) = replay_buffer st"
  "frame_idx (sync_target st) = frame_idx st"
  "q_network (sync_target st) = q_network st"
  "target_network (sync_target st) = target_network st"
  "optimizer_params (sync_target st) = optimizer_params st"
  "length (params (sync_target st)) = length (params st)"
  by (simp_all add: sync_target_def load_state_dict_def)

lemma sync_target_params:
  assumes "nets_ok st"
  shows "params (sync_target st) ! target_network st = params st ! q_network st"
    and "params (sync_target st) ! q_network st = params st ! q_network st"
    and "nets_ok (sync_target st)"
  using assms by (simp_all add: sync_target_def load_state_dict_def nets_ok_def)

lemma sample_ok:
  assumes "distinct perm" and "set perm = {..<length (buffer rb)}"
    and "0 < k" and "k \<le> length (buffer rb)"
  shows "\<exists>rows. rows \<noteq> [] \<and> ReplayBuffer_sample rb perm k = unzip5 rows
                \<and> unzip5 rows = Inr (map exp_state rows, map exp_action rows, map exp_reward rows,
                     map (\<lambda>e. if exp_done e then 1 else 0) rows, map exp_new_state rows)"
proof -
  have idx: "distinct (take k perm) \<and> length (take k perm) = k
               \<and> set (take k perm) \<subseteq> {..<length (buffer rb)}"
    by (rule take_perm_indices [OF assms(1,2,4)])
  then have rng: "\<forall>i \<in> set (take k perm). i < length (buffer rb)"
    by auto
  let ?rows = "map ((!) (buffer rb)) (take k perm)"
  have ne: "?rows \<noteq> []"
    using idx assms(3) by auto
  have "ReplayBuffer_sample rb perm k = unzip5 ?rows"
    using assms(4) by (simp add: ReplayBuffer_sample_def random_choice_def getitems_map [OF rng])
  then show ?thesis
    using ne by (intro exI [of _ ?rows]) (simp add: unzip5_def)
qed

lemma update_ok:
  assumes "nets_ok st" and "distinct (in_perm inp)"
    and "set (in_perm inp) = {..<length (buffer (replay_buffer st))}"
    and "BATCH_SIZE \<le> length (buffer (replay_buffer st))"
    and "\<forall>p s. forward L p s \<noteq> []"
  shows "\<exists>o' p'. update L inp st =
           Inr (st\<lparr>params := (params st)[q_network st := p'], optimizer_state := o'\<rparr>)"
proof -
  have k: "0 < BATCH_SIZE" by (simp add: BATCH_SIZE_def)
  obtain rows where rows: "rows \<noteq> []"
    "ReplayBuffer_sample (replay_buffer st) (in_perm inp) BATCH_SIZE = unzip5 rows"
    "unzip5 rows = Inr (map exp_state rows, map exp_action rows, map exp_reward rows,
                     map (\<lambda>e. if exp_done e then 1 else 0) rows, map exp_new_state rows)"
    using sample_ok [OF assms(2,3) k assms(4)] by blast
  have nz: "\<forall>s. forward L (params st ! target_network st) s \<noteq> []"
    using assms(5) by simp
  obtain ts where ts: "td_targets (forward L (params st ! target_network st))
        (map exp_state rows, map exp_action rows, map exp_reward rows,
         map (\<lambda>e. if exp_done e then 1 else 0) rows, map exp_new_state rows) = Inr ts"
    using td_targets_rows [OF nz, of rows] by blast
  have op: "optimizer_params st = q_network st"
    using assms(1) by (simp add: nets_ok_def)
  show ?thesis
    by (cases "adam L (optimizer_state st) (params st ! q_network st)
                 (backward L (params st ! q_network st) (map exp_state rows)
                    (map exp_action rows) ts)")
      (auto simp: update_def rows(2,3) ts op)
qed


lemma ReplayBuffer_append_length:
  "length (buffer rb) \<le> capacity rb \<Longrightarrow>
   length (buffer (ReplayBuffer_append rb e)) = min (Suc (length (buffer rb))) (capacity rb)"
  by (simp add: ReplayBuffer_append_def deque_append_drop)

lemma train_iteration_effect:
  assumes nets: "nets_ok st" and rb: "rb_ok st" and inp: "input_ok L inp"
  shows "\<exists>st' ctl evs.
           train_iteration L inp st = Inr (st', ctl, evs)
           \<and> frame_idx st' = Suc (frame_idx st) \<and> nets_ok st' \<and> rb_ok st'
           \<and> length (buffer (replay_buffer st'))
               = min (Suc (length (buffer (replay_buffer st)))) REPLAY_MEMORY
           \<and> q_network st' = q_network st \<and> target_network st' = target_network st
           \<and> (ctl = Break \<longrightarrow> (\<exists>a. snd (snd (in_env_step inp a))))
           \<and> (if ctl = Break \<or> length (buffer (replay_buffer st')) < INITIAL_MEMORY
               then evs = [EnvStep] \<and> params st' = params st
               else ctl = Continue
                    \<and> (if Suc (frame_idx st) mod TARGET_UPDATE = 0
                        then evs = [EnvStep, SyncTarget, GradientStep]
                             \<and> params st' ! target_network st = params st ! q_network st
                        else evs = [EnvStep, GradientStep]
                             \<and> params st' ! target_network st = params st ! target_network st))"
proof -
  define st0 where "st0 = st\<lparr>frame_idx := frame_idx st + 1\<rparr>"
  define eps where "eps = max EPS_END (EPS_START - real (frame_idx st0) / EPS_DECAY)"
  have fw: "\<forall>p s. forward L p s \<noteq> []"
    using inp by (simp add: input_ok_def)
  obtain action where sa: "select_action L inp st0 eps = Inr action"
    using select_action_ok [OF fw] by blast
  obtain ns r dn where es: "in_env_step inp action = (ns, r, dn)"
    by (cases "in_env_step inp action") auto
  define ex where "ex = \<lparr>exp_state = state st0, exp_action = action, exp_reward = r,
                             exp_done = dn, exp_new_state = ns\<rparr>"
  define st1 where "st1 = st0\<lparr>total_reward := total_reward st0 + r,
                                 replay_buffer := ReplayBuffer_append (replay_buffer st0) ex,
                                 state := ns\<rparr>"
  define ep where "ep = (if dn then episode_end inp st1 else (st1, False))"
  define st2 where "st2 = fst ep"
  define synced where "synced = (frame_idx st2 mod TARGET_UPDATE = 0)"
  define st3 where "st3 = (if synced then sync_target st2 else st2)"
  have ti: "train_iteration L inp st =
              (if snd ep then Inr (st2, Break, [EnvStep])
               else if ReplayBuffer_len (replay_buffer st2) < INITIAL_MEMORY
               then Inr (st2, Continue, [EnvStep])
               else (case update L inp st3 of
                       Inl e \<Rightarrow> Inl e
                     | Inr st4 \<Rightarrow>
                         Inr (st4, Continue,
                              EnvStep # (if synced then [SyncTarget] else []) @ [GradientStep])))"
    unfolding train_iteration_def Let_def st3_def synced_def st2_def ep_def st1_def ex_def
      eps_def [symmetric] st0_def [symmetric]
    by (simp add: sa es)
  have f2: "params st2 = params st" "frame_idx st2 = Suc (frame_idx st)"
    "q_network st2 = q_network st" "target_network st2 = target_network st"
    "optimizer_params st2 = optimizer_params st"
    "replay_buffer st2 = ReplayBuffer_append (replay_buffer st) ex"
    by (simp_all add: st2_def ep_def episode_end_frame st1_def st0_def)
  have cap: "capacity (replay_buffer st) = REPLAY_MEMORY"
    and le: "length (buffer (replay_buffer st)) \<le> capacity (replay_buffer st)"
    using rb by (simp_all add: rb_ok_def)
  have len2: "length (buffer (replay_buffer st2))
                = min (Suc (length (buffer (replay_buffer st)))) REPLAY_MEMORY"
    using ReplayBuffer_append_length [OF le, of ex] by (simp add: f2 cap)
  have rb2: "rb_ok st2"
    using cap len2 by (simp add: rb_ok_def f2)
  have nets2: "nets_ok st2"
    using nets by (simp add: nets_ok_def f2)
  show ?thesis
  proof (cases "snd ep \<or> ReplayBuffer_len (replay_buffer st2) < INITIAL_MEMORY")
    case True
    then have "train_iteration L inp st = Inr (st2, (if snd ep then Break else Continue), [EnvStep])"
      by (auto simp: ti)
    moreover have "\<exists>a. snd (snd (in_env_step inp a))" if "snd ep"
    proof -
      have dn using that by (auto simp: ep_def split: if_splits)
      then have "snd (snd (in_env_step inp action))" by (simp add: es)
      then show ?thesis ..
    qed
    ultimately show ?thesis
      using True f2(1-4) nets2 rb2 len2
      by (intro exI [of _ st2] exI [of _ "if snd ep then Break else Continue"]
            exI [of _ "[EnvStep]"]) (auto simp: ReplayBuffer_len_def)
  next
    case False
    then have full: "INITIAL_MEMORY \<le> length (buffer (replay_buffer st2))"
      by (simp add: ReplayBuffer_len_def)
    then have l2: "length (buffer (replay_buffer st2)) = REPLAY_MEMORY"
      using len2 by (simp add: INITIAL_MEMORY_def REPLAY_MEMORY_def)
    have nets3: "nets_ok st3"
      using nets2 sync_target_params(3) [OF nets2] by (simp add: st3_def)
    have f3: "replay_buffer st3 = replay_buffer st2" "frame_idx st3 = frame_idx st2"
      "q_network st3 = q_network st2" "target_network st3 = target_network st2"
      "length (params st3) = length (params st2)"
      by (simp_all add: st3_def sync_target_frame)
    have perm: "distinct (in_perm inp)"
      "set (in_perm inp) = {..<length (buffer (replay_buffer st3))}"
      using inp by (simp_all add: input_ok_def f3 l2)
    have bs: "BATCH_SIZE \<le> length (buffer (replay_buffer st3))"
      by (simp add: f3 l2 BATCH_SIZE_def REPLAY_MEMORY_def)
    obtain o' p' where up: "update L inp st3 =
        Inr (st3\<lparr>params := (params st3)[q_network st3 := p'], optimizer_state := o'\<rparr>)"
      using update_ok [OF nets3 perm bs fw] by blast
    let ?st4 = "st3\<lparr>params := (params st3)[q_network st3 := p'], optimizer_state := o'\<rparr>"
    let ?evs = "EnvStep # (if synced then [SyncTarget] else []) @ [GradientStep]"
    have res: "train_iteration L inp st = Inr (?st4, Continue, ?evs)"
      using False by (simp add: ti up)
    have qt: "q_network st \<noteq> target_network st" "target_network st < length (params st)"
      using nets by (simp_all add: nets_ok_def)
    have tgt: "params ?st4 ! target_network st = params st3 ! target_network st"
      using qt by (simp add: f3 f2)
    have p3: "params st3 ! target_network st
                = (if synced then params st ! q_network st else params st ! target_network st)"
      using sync_target_params(1) [OF nets2] by (simp add: st3_def f2)
    have sy: "synced \<longleftrightarrow> Suc (frame_idx st) mod TARGET_UPDATE = 0"
      by (simp add: synced_def f2)
    have nets4: "nets_ok ?st4"
      using nets3 by (simp add: nets_ok_def)
    have rb4: "rb_ok ?st4"
      using rb2 by (simp add: rb_ok_def f3)
    show ?thesis
      using res tgt p3 sy nets4 rb4 len2 full False
      by (intro exI [of _ ?st4] exI [of _ Continue] exI [of _ ?evs])
        (simp add: f3 f2 ReplayBuffer_len_def)
  qed
qed


lemma train_loop_run:
  assumes "nets_ok st" and "rb_ok st" and "\<forall>inp \<in> set inps. input_ok L inp"
  shows "\<exists>st' trace.
           train_loop L st inps = Inr (st', trace) \<and> nets_ok st' \<and> rb_ok st'
           \<and> length (buffer (replay_buffer st)) \<le> length (buffer (replay_buffer st'))
           \<and> (INITIAL_MEMORY \<le> length (buffer (replay_buffer st)) \<longrightarrow>
                 (\<forall>x \<in> set trace. if fst x = Continue then GradientStep \<in> set (snd x)
                                  else snd x = [EnvStep]))"
  using assms
proof (induction inps arbitrary: st)
  case Nil
  then show ?case by simp
next
  case (Cons inp inps)
  show ?case
  proof (cases "frame_idx st < total_frames")
    case False
    then show ?thesis using Cons.prems by simp
  next
    case True
    have inp: "input_ok L inp" and rest: "\<forall>i \<in> set inps. input_ok L i"
      using Cons.prems(3) by simp_all
    obtain st1 ctl evs where
      it: "train_iteration L inp st = Inr (st1, ctl, evs)" and
      ok1: "nets_ok st1" "rb_ok st1" and
      len1: "length (buffer (replay_buffer st1))
               = min (Suc (length (buffer (replay_buffer st)))) REPLAY_MEMORY" and
      ev: "if ctl = Break \<or> length (buffer (replay_buffer st1)) < INITIAL_MEMORY
           then evs = [EnvStep] \<and> params st1 = params st
           else ctl = Continue
                \<and> (if Suc (frame_idx st) mod TARGET_UPDATE = 0
                    then evs = [EnvStep, SyncTarget, GradientStep]
                         \<and> params st1 ! target_network st = params st ! q_network st
                    else evs = [EnvStep, GradientStep]
                         \<and> params st1 ! target_network st = params st ! target_network st)"
      using train_iteration_effect [OF Cons.prems(1,2) inp] by blast
    have le: "length (buffer (replay_buffer st)) \<le> REPLAY_MEMORY"
      using Cons.prems(2) by (simp add: rb_ok_def)
    have mono: "length (buffer (replay_buffer st)) \<le> length (buffer (replay_buffer st1))"
      using le len1 by simp
    have here: "if ctl = Continue then GradientStep \<in> set evs else evs = [EnvStep]"
      if "INITIAL_MEMORY \<le> length (buffer (replay_buffer st))"
      using ev that mono by (cases ctl) (auto split: if_splits)
    show ?thesis
    proof (cases ctl)
      case Break
      then show ?thesis
        using True it ok1 mono here by simp
    next
      case Continue
      obtain st2 trace where
        run: "train_loop L st1 inps = Inr (st2, trace)" and
        ok2: "nets_ok st2" "rb_ok st2" and
        mono2: "length (buffer (replay_buffer st1)) \<le> length (buffer (replay_buffer st2))" and
        tr: "INITIAL_MEMORY \<le> length (buffer (replay_buffer st1)) \<longrightarrow>
               (\<forall>x \<in> set trace. if fst x = Continue then GradientStep \<in> set (snd x)
                                else snd x = [EnvStep])"
        using Cons.IH [OF ok1 rest] by blast
      have "train_loop L st (inp # inps) = Inr (st2, (ctl, evs) # trace)"
        using True it Continue run by simp
      then show ?thesis
        using ok2 mono mono2 tr here by auto
    qed
  qed
qed

lemma example_state_ok:
  "nets_ok (example_state n 10000)" "rb_ok (example_state n 10000)"
  by (simp_all add: example_state_def nets_ok_def rb_ok_def REPLAY_MEMORY_def)

lemma example_input_ok:
  "input_ok example_learner (example_input r d)"
  by (simp add: input_ok_def example_input_def example_learner_def REPLAY_MEMORY_def
      atLeast0LessThan del: upt_rec_numeral)

lemma training_setup_ok:
  "nets_ok (training_setup q_init t_init opt_init state0)"
  "rb_ok (training_setup q_init t_init opt_init state0)"
  "params (training_setup q_init t_init opt_init state0)
     ! target_network (training_setup q_init t_init opt_init state0) = q_init"
  "params (training_setup q_init t_init opt_init state0)
     ! q_network (training_setup q_init t_init opt_init state0) = q_init"
  by (simp_all add: training_setup_def alloc_def load_state_dict_def nets_ok_def rb_ok_def
      ReplayBuffer_init_def)

lemma warmup_iteration:
  assumes "k < 9999"
  shows "train_iteration example_learner (example_input 0 False) (example_state k k)
           = Inr (example_state (Suc k) (Suc k), Continue, [EnvStep])"
proof -
  have eps: "(0::real) < max EPS_END (EPS_START - (1 + real k) / EPS_DECAY)"
    by (simp add: EPS_END_def less_max_iff_disj)
  show ?thesis
    using assms eps
    by (simp add: train_iteration_def Let_def example_state_def example_input_def
        select_action_def ReplayBuffer_append_def deque_append_def REPLAY_MEMORY_def
        ReplayBuffer_len_def INITIAL_MEMORY_def idle_experience_def
        replicate_append_same)
qed

lemma warmup_run:
  "k + n < 10000 \<Longrightarrow>
   train_loop example_learner (example_state k k) (replicate n (example_input 0 False))
     = Inr (example_state (k + n) (k + n), replicate n (Continue, [EnvStep]))"
proof (induction n arbitrary: k)
  case 0
  then show ?case by simp
next
  case (Suc n)
  have k: "k < 9999" using Suc.prems by simp
  have fi: "frame_idx (example_state k k) < total_frames"
    using k by (simp add: example_state_def total_frames_def)
  have "train_loop example_learner (example_state (Suc k) (Suc k))
          (replicate n (example_input 0 False))
        = Inr (example_state (Suc k + n) (Suc k + n), replicate n (Continue, [EnvStep]))"
    using Suc.prems by (intro Suc.IH) simp
  then show ?case
    using fi by (simp add: warmup_iteration [OF k])
qed

lemma training_setup_example:
  "training_setup 5 7 0 0 = example_state 0 0"
  by (simp add: training_setup_def alloc_def load_state_dict_def example_state_def
      ReplayBuffer_init_def)

lemma update_example:
  assumes "nets_ok st" and "distinct (in_perm inp)"
    and "set (in_perm inp) = {..<length (buffer (replay_buffer st))}"
    and "BATCH_SIZE \<le> length (buffer (replay_buffer st))"
  shows "update example_learner inp st =
           Inr (st\<lparr>params := (params st)[q_network st := Suc (params st ! q_network st)],
                   optimizer_state := Suc (optimizer_state st)\<rparr>)"
proof -
  have k: "0 < BATCH_SIZE" by (simp add: BATCH_SIZE_def)
  obtain rows where rows:
    "ReplayBuffer_sample (replay_buffer st) (in_perm inp) BATCH_SIZE = unzip5 rows"
    "unzip5 rows = Inr (map exp_state rows, map exp_action rows, map exp_reward rows,
                     map (\<lambda>e. if exp_done e then 1 else 0) rows, map exp_new_state rows)"
    using sample_ok [OF assms(2,3) k assms(4)] by blast
  have nz: "\<forall>s. forward example_learner (params st ! target_network st) s \<noteq> []"
    by (simp add: example_learner_def)
  note ts = td_targets_rows [OF nz, of rows]
  have op: "optimizer_params st = q_network st"
    using assms(1) by (simp add: nets_ok_def)
  have ad: "adam example_learner = (\<lambda>ostate p g. (Suc ostate, p + g))"
    and bw: "backward example_learner = (\<lambda>p states actions expected. 1)"
    by (simp_all add: example_learner_def)
  show ?thesis
    by (simp add: update_def rows ts op ad bw)
qed

lemma warmup_run_then:
  "k + n < 10000 \<Longrightarrow>
   train_loop example_learner (example_state k k) (replicate n (example_input 0 False) @ rest)
     = (case train_loop example_learner (example_state (k + n) (k + n)) rest of
          Inl e \<Rightarrow> Inl e
        | Inr (st, trace) \<Rightarrow> Inr (st, replicate n (Continue, [EnvStep]) @ trace))"
proof (induction n arbitrary: k)
  case 0
  then show ?case by (simp split: sum.splits)
next
  case (Suc n)
  have k: "k < 9999" using Suc.prems by simp
  have fi: "frame_idx (example_state k k) < total_frames"
    using k by (simp add: example_state_def total_frames_def)
  have ih: "train_loop example_learner (example_state (Suc k) (Suc k))
          (replicate n (example_input 0 False) @ rest)
        = (case train_loop example_learner (example_state (Suc k + n) (Suc k + n)) rest of
          Inl e \<Rightarrow> Inl e
        | Inr (st, trace) \<Rightarrow> Inr (st, replicate n (Continue, [EnvStep]) @ trace))"
    using Suc.prems by (intro Suc.IH) simp
  show ?case
    using fi by (simp add: warmup_iteration [OF k] ih split: sum.splits)
qed

lemma first_learning_iteration:
  "train_iteration example_learner (example_input 0 False) (example_state 9999 9999)
     = Inr ((example_state 10000 10000)\<lparr>params := [6, 5], optimizer_state := Suc 0\<rparr>,
            Continue, [EnvStep, SyncTarget, GradientStep])"
proof -
  define st3 where "st3 = sync_target (example_state 10000 10000)"
  have eps: "(0::real) < max EPS_END (EPS_START - 10000 / EPS_DECAY)"
    by (simp add: EPS_END_def less_max_iff_disj)
  have r: "replicate 9999 idle_experience @ [idle_experience] = replicate 10000 idle_experience"
    using replicate_append_same [of 9999 idle_experience] replicate_Suc [of 9999 idle_experience]
    by simp
  have ti: "train_iteration example_learner (example_input 0 False) (example_state 9999 9999)
              = (case update example_learner (example_input 0 False) st3 of
                   Inl e \<Rightarrow> Inl e
                 | Inr st4 \<Rightarrow> Inr (st4, Continue, EnvStep # [SyncTarget] @ [GradientStep]))"
    unfolding st3_def using eps
    by (simp add: train_iteration_def Let_def select_action_def example_state_def
        example_input_def ReplayBuffer_append_def deque_append_def REPLAY_MEMORY_def
        ReplayBuffer_len_def INITIAL_MEMORY_def TARGET_UPDATE_def idle_experience_def [symmetric]
        r sync_target_def del: upt_rec_numeral)
  have n: "nets_ok st3"
    by (simp add: st3_def sync_target_def load_state_dict_def nets_ok_def example_state_def)
  have p: "distinct (in_perm (example_input 0 False))"
    "set (in_perm (example_input 0 False)) = {..<length (buffer (replay_buffer st3))}"
    by (simp_all add: st3_def example_input_def sync_target_def example_state_def
        atLeast0LessThan del: upt_rec_numeral)
  have b: "BATCH_SIZE \<le> length (buffer (replay_buffer st3))"
    by (simp add: st3_def sync_target_def example_state_def BATCH_SIZE_def)
  have up: "update example_learner (example_input 0 False) st3
              = Inr ((example_state 10000 10000)\<lparr>params := [6, 5], optimizer_state := Suc 0\<rparr>)"
    unfolding update_example [OF n p b]
    by (simp add: st3_def sync_target_def load_state_dict_def example_state_def)
  show ?thesis
    unfolding ti up by simp
qed

lemma solved_iteration:
  "\<exists>st'. train_iteration example_learner (example_input 21 True)
           ((example_state 10000 10000)\<lparr>params := [6, 5], optimizer_state := Suc 0\<rparr>)
         = Inr (st', Break, [EnvStep])"
  by (simp add: train_iteration_def Let_def example_state_def example_input_def
      select_action_def EPS_END_def EPS_START_def EPS_DECAY_def ReplayBuffer_append_def
      deque_append_def REPLAY_MEMORY_def ReplayBuffer_len_def INITIAL_MEMORY_def
      episode_end_def)


text \<open>
  C3, as the notebook has it. Take an iteration whose step count is a multiple of
  \<open>TARGET_UPDATE = 1000\<close>, with usable inputs. It returns, and the replay buffer has one
  experience more, up to its capacity. If the buffer is then still below \<open>INITIAL_MEMORY\<close>
  (warm-up), or the loop stops as solved, the iteration ends before the target
  synchronisation: its only effect is the environment step, and both parameter sets are
  as before. Otherwise it executes the synchronisation and then the gradient step, and
  the target parameters afterwards are the Q-network's parameters the iteration started
  with. Right after a synchronisation the two parameter sets are equal, and they are
  equal after the setup.
\<close>

theorem target_sync_after_warmup_gate:
  assumes "nets_ok st" and "rb_ok st" and "input_ok L inp"
    and "Suc (frame_idx st) mod TARGET_UPDATE = 0"
  shows "(\<exists>st' ctl evs.
            train_iteration L inp st = Inr (st', ctl, evs) \<and> frame_idx st' = Suc (frame_idx st)
            \<and> ReplayBuffer_len (replay_buffer st')
                = min (Suc (ReplayBuffer_len (replay_buffer st))) REPLAY_MEMORY
            \<and> (ReplayBuffer_len (replay_buffer st') < INITIAL_MEMORY \<longrightarrow>
                  evs = [EnvStep] \<and> params st' = params st)
            \<and> (ctl = Break \<longrightarrow> evs = [EnvStep] \<and> params st' = params st)
            \<and> (ctl = Continue \<and> INITIAL_MEMORY \<le> ReplayBuffer_len (replay_buffer st') \<longrightarrow>
                  evs = [EnvStep, SyncTarget, GradientStep]
                  \<and> params st' ! target_network st' = params st ! q_network st))
         \<and> params (sync_target st) ! target_network (sync_target st)
             = params (sync_target st) ! q_network (sync_target st)
         \<and> params (training_setup q_init t_init opt_init state0)
              ! target_network (training_setup q_init t_init opt_init state0)
             = params (training_setup q_init t_init opt_init state0)
                 ! q_network (training_setup q_init t_init opt_init state0)"
proof (intro conjI)
  obtain st' ctl evs where
    it: "train_iteration L inp st = Inr (st', ctl, evs)" and
    fi: "frame_idx st' = Suc (frame_idx st)" and
    tn: "target_network st' = target_network st" and
    ln: "length (buffer (replay_buffer st'))
           = min (Suc (length (buffer (replay_buffer st)))) REPLAY_MEMORY" and
    ev: "if ctl = Break \<or> length (buffer (replay_buffer st')) < INITIAL_MEMORY
         then evs = [EnvStep] \<and> params st' = params st
         else ctl = Continue
              \<and> (if Suc (frame_idx st) mod TARGET_UPDATE = 0
                  then evs = [EnvStep, SyncTarget, GradientStep]
                       \<and> params st' ! target_network st = params st ! q_network st
                  else evs = [EnvStep, GradientStep]
                       \<and> params st' ! target_network st = params st ! target_network st)"
    using train_iteration_effect [OF assms(1,2,3)] by blast
  show "\<exists>st' ctl evs.
            train_iteration L inp st = Inr (st', ctl, evs) \<and> frame_idx st' = Suc (frame_idx st)
            \<and> ReplayBuffer_len (replay_buffer st')
                = min (Suc (ReplayBuffer_len (replay_buffer st))) REPLAY_MEMORY
            \<and> (ReplayBuffer_len (replay_buffer st') < INITIAL_MEMORY \<longrightarrow>
                  evs = [EnvStep] \<and> params st' = params st)
            \<and> (ctl = Break \<longrightarrow> evs = [EnvStep] \<and> params st' = params st)
            \<and> (ctl = Continue \<and> INITIAL_MEMORY \<le> ReplayBuffer_len (replay_buffer st') \<longrightarrow>
                  evs = [EnvStep, SyncTarget, GradientStep]
                  \<and> params st' ! target_network st' = params st ! q_network st)"
    using it fi tn ln ev assms(4)
    by (intro exI [of _ st'] exI [of _ ctl] exI [of _ evs])
      (auto simp: ReplayBuffer_len_def split: if_splits)
  show "params (sync_target st) ! target_network (sync_target st)
             = params (sync_target st) ! q_network (sync_target st)"
    using sync_target_params(1,2) [OF assms(1)] by (simp add: sync_target_frame)
  show "params (training_setup q_init t_init opt_init state0)
              ! target_network (training_setup q_init t_init opt_init state0)
             = params (training_setup q_init t_init opt_init state0)
                 ! q_network (training_setup q_init t_init opt_init state0)"
    by (simp add: training_setup_ok)
qed

theorem target_sync_after_warmup_gate_witness:
  "nets_ok (example_state 19999 10000) \<and> rb_ok (example_state 19999 10000)
   \<and> input_ok example_learner (example_input 0 False)
   \<and> Suc (frame_idx (example_state 19999 10000)) mod TARGET_UPDATE = 0
   \<and> (\<exists>st'. train_iteration example_learner (example_input 0 False) (example_state 19999 10000)
               = Inr (st', Continue, [EnvStep, SyncTarget, GradientStep])
             \<and> params st' ! target_network st' = 5)"
proof -
  let ?st = "example_state 19999 10000"
  let ?inp = "example_input 0 False"
  have m: "Suc (frame_idx ?st) mod TARGET_UPDATE = 0"
    by (simp add: example_state_def TARGET_UPDATE_def)
  have q: "params ?st ! q_network ?st = 5"
    by (simp add: example_state_def)
  have l: "min (Suc (ReplayBuffer_len (replay_buffer ?st))) REPLAY_MEMORY = INITIAL_MEMORY"
    by (simp add: example_state_def ReplayBuffer_len_def REPLAY_MEMORY_def INITIAL_MEMORY_def)
  have nd: "\<not> (\<exists>a. snd (snd (in_env_step ?inp a)))"
    by (simp add: example_input_def)
  note gate = target_sync_after_warmup_gate
      [OF example_state_ok(1,2) example_input_ok [of 0 False] m, THEN conjunct1]
  then obtain st' ctl evs where
    it: "train_iteration example_learner ?inp ?st = Inr (st', ctl, evs)" and
    ln: "ReplayBuffer_len (replay_buffer st')
           = min (Suc (ReplayBuffer_len (replay_buffer ?st))) REPLAY_MEMORY" and
    ac: "ctl = Continue \<and> INITIAL_MEMORY \<le> ReplayBuffer_len (replay_buffer st') \<longrightarrow>
           evs = [EnvStep, SyncTarget, GradientStep]
           \<and> params st' ! target_network st' = params ?st ! q_network ?st"
    by (elim exE conjE)
  obtain st2 ctl2 evs2 where
    it2: "train_iteration example_learner ?inp ?st = Inr (st2, ctl2, evs2)" and
    br: "ctl2 = Break \<longrightarrow> (\<exists>a. snd (snd (in_env_step ?inp a)))"
    using train_iteration_effect [OF example_state_ok(1,2) example_input_ok [of 0 False], of 19999]
    by (elim exE conjE)
  have "ctl2 = ctl"
    using it it2 by simp
  then have c: "ctl = Continue"
    using br nd by (cases ctl) simp_all
  have "evs = [EnvStep, SyncTarget, GradientStep] \<and> params st' ! target_network st' = 5"
    using ac c ln l q by simp
  then have "\<exists>st'. train_iteration example_learner ?inp ?st
               = Inr (st', Continue, [EnvStep, SyncTarget, GradientStep])
             \<and> params st' ! target_network st' = 5"
    using it c by blast
  then show ?thesis
    using example_state_ok(1,2) [of 19999] example_input_ok [of 0 False] m by blast
qed

text \<open>
  C3, as stated, fails in warm-up. From the setup, with an environment that never
  rewards and never ends the episode, the first 1000 iterations each execute the
  environment step and nothing else: step 1000 is a multiple of 1000, the replay buffer
  holds 1000 experiences, and no target synchronisation has been executed.
\<close>

theorem warmup_run_never_syncs:
  "train_loop example_learner (training_setup 5 7 0 0) (replicate 1000 (example_input 0 False))
     = Inr (example_state 1000 1000, replicate 1000 (Continue, [EnvStep]))
   \<and> frame_idx (example_state 1000 1000) mod TARGET_UPDATE = 0"
  using warmup_run [of 0 1000]
  by (simp add: training_setup_example example_state_def TARGET_UPDATE_def)

text \<open>
  C8. With the two networks distinct objects and the optimizer holding the Q-network's
  parameters (as the setup leaves them): \<^verbatim>\<open>sync_target\<close> followed by \<^verbatim>\<open>update\<close> on a full
  replay buffer returns and leaves the target parameters what the synchronisation made
  them, the Q-network's; and an iteration of the loop that does not execute the
  synchronisation leaves the target parameters as they were, also when it executes the
  gradient step, while one that executes it sets them to the Q-network's parameters.
\<close>

theorem gradient_step_leaves_target_params:
  assumes "nets_ok st" and "rb_ok st" and "input_ok L inp"
  shows "(length (buffer (replay_buffer st)) = REPLAY_MEMORY \<longrightarrow>
            (\<exists>st'. update L inp (sync_target st) = Inr st'
                   \<and> params st' ! target_network st'
                       = params (sync_target st) ! target_network (sync_target st)
                   \<and> params (sync_target st) ! target_network (sync_target st)
                       = params st ! q_network st))
         \<and> (\<exists>st' ctl evs.
               train_iteration L inp st = Inr (st', ctl, evs)
               \<and> (SyncTarget \<notin> set evs \<longrightarrow>
                     params st' ! target_network st' = params st ! target_network st)
               \<and> (SyncTarget \<in> set evs \<longrightarrow>
                     params st' ! target_network st' = params st ! q_network st))"
proof (intro conjI impI)
  assume full: "length (buffer (replay_buffer st)) = REPLAY_MEMORY"
  let ?s = "sync_target st"
  have nets: "nets_ok ?s"
    by (rule sync_target_params(3) [OF assms(1)])
  have perm: "distinct (in_perm inp)" "set (in_perm inp) = {..<length (buffer (replay_buffer ?s))}"
    and fw: "\<forall>p s. forward L p s \<noteq> []"
    using assms(3) full by (simp_all add: input_ok_def sync_target_frame)
  have bs: "BATCH_SIZE \<le> length (buffer (replay_buffer ?s))"
    using full by (simp add: sync_target_frame BATCH_SIZE_def REPLAY_MEMORY_def)
  obtain o' p' where up: "update L inp ?s =
      Inr (?s\<lparr>params := (params ?s)[q_network ?s := p'], optimizer_state := o'\<rparr>)"
    using update_ok [OF nets perm bs fw] by blast
  have ne: "q_network ?s \<noteq> target_network ?s"
    using nets by (simp add: nets_ok_def)
  have "params (?s\<lparr>params := (params ?s)[q_network ?s := p'], optimizer_state := o'\<rparr>)
          ! target_network (?s\<lparr>params := (params ?s)[q_network ?s := p'], optimizer_state := o'\<rparr>)
        = params ?s ! target_network ?s"
    using ne by simp
  moreover have "params ?s ! target_network ?s = params st ! q_network st"
    using sync_target_params(1) [OF assms(1)] by (simp add: sync_target_frame)
  ultimately show "\<exists>st'. update L inp ?s = Inr st'
                   \<and> params st' ! target_network st' = params ?s ! target_network ?s
                   \<and> params ?s ! target_network ?s = params st ! q_network st"
    using up by blast
next
  obtain st' ctl evs where
    it: "train_iteration L inp st = Inr (st', ctl, evs)" and
    tn: "target_network st' = target_network st" and
    ev: "if ctl = Break \<or> length (buffer (replay_buffer st')) < INITIAL_MEMORY
         then evs = [EnvStep] \<and> params st' = params st
         else ctl = Continue
              \<and> (if Suc (frame_idx st) mod TARGET_UPDATE = 0
                  then evs = [EnvStep, SyncTarget, GradientStep]
                       \<and> params st' ! target_network st = params st ! q_network st
                  else evs = [EnvStep, GradientStep]
                       \<and> params st' ! target_network st = params st ! target_network st)"
    using train_iteration_effect [OF assms] by (elim exE conjE)
  have "SyncTarget \<notin> set evs \<longrightarrow>
          params st' ! target_network st' = params st ! target_network st"
    using ev by (auto simp: tn split: if_splits)
  moreover have "SyncTarget \<in> set evs \<longrightarrow>
          params st' ! target_network st' = params st ! q_network st"
    using ev by (auto simp: tn split: if_splits)
  ultimately show "\<exists>st' ctl evs.
               train_iteration L inp st = Inr (st', ctl, evs)
               \<and> (SyncTarget \<notin> set evs \<longrightarrow>
                     params st' ! target_network st' = params st ! target_network st)
               \<and> (SyncTarget \<in> set evs \<longrightarrow>
                     params st' ! target_network st' = params st ! q_network st)"
    using it by blast
qed

theorem gradient_step_leaves_target_params_witness:
  "nets_ok (example_state 12345 10000) \<and> rb_ok (example_state 12345 10000)
   \<and> input_ok example_learner (example_input 0 False)
   \<and> length (buffer (replay_buffer (example_state 12345 10000))) = REPLAY_MEMORY
   \<and> (\<exists>st'. update example_learner (example_input 0 False) (sync_target (example_state 12345 10000))
               = Inr st'
             \<and> params st' ! target_network st' = 5)"
proof -
  let ?st = "example_state 12345 10000"
  have full: "length (buffer (replay_buffer ?st)) = REPLAY_MEMORY"
    by (simp add: example_state_def REPLAY_MEMORY_def)
  have q: "params ?st ! q_network ?st = 5"
    by (simp add: example_state_def)
  note fr = gradient_step_leaves_target_params
      [OF example_state_ok(1,2) [of 12345] example_input_ok [of 0 False], THEN conjunct1,
       rule_format, OF full]
  then obtain st' where
    "update example_learner (example_input 0 False) (sync_target ?st) = Inr st'"
    "params st' ! target_network st' = params (sync_target ?st) ! target_network (sync_target ?st)"
    "params (sync_target ?st) ! target_network (sync_target ?st) = params ?st ! q_network ?st"
    by (elim exE conjE)
  then have "\<exists>st'. update example_learner (example_input 0 False) (sync_target ?st) = Inr st'
             \<and> params st' ! target_network st' = 5"
    using q by auto
  then show ?thesis
    using example_state_ok(1,2) [of 12345] example_input_ok [of 0 False] full by blast
qed

text \<open>
  C10, as the notebook has it. \<open>INITIAL_MEMORY\<close> equals the capacity \<open>REPLAY_MEMORY\<close>.
  Every run of the loop on usable inputs returns; the size of the replay buffer at its
  end is at least the size at its start and at most the capacity. When the size at the
  start is \<open>INITIAL_MEMORY\<close> it is so at the end, and every iteration of the run that
  goes on to the next iteration has executed a gradient step; the iteration at which
  the loop breaks as solved has executed only the environment step.
\<close>

theorem replay_size_monotone_learning_permanent:
  assumes "nets_ok st" and "rb_ok st" and "\<forall>inp \<in> set inps. input_ok L inp"
  shows "INITIAL_MEMORY = REPLAY_MEMORY
         \<and> (\<exists>st' trace.
               train_loop L st inps = Inr (st', trace)
               \<and> ReplayBuffer_len (replay_buffer st) \<le> ReplayBuffer_len (replay_buffer st')
               \<and> ReplayBuffer_len (replay_buffer st') \<le> REPLAY_MEMORY
               \<and> (ReplayBuffer_len (replay_buffer st) = INITIAL_MEMORY \<longrightarrow>
                     ReplayBuffer_len (replay_buffer st') = INITIAL_MEMORY
                     \<and> (\<forall>x \<in> set trace. if fst x = Continue then GradientStep \<in> set (snd x)
                                          else snd x = [EnvStep])))"
proof -
  obtain st' trace where
    run: "train_loop L st inps = Inr (st', trace)" and
    ok: "rb_ok st'" and
    mono: "length (buffer (replay_buffer st)) \<le> length (buffer (replay_buffer st'))" and
    tr: "INITIAL_MEMORY \<le> length (buffer (replay_buffer st)) \<longrightarrow>
           (\<forall>x \<in> set trace. if fst x = Continue then GradientStep \<in> set (snd x)
                            else snd x = [EnvStep])"
    using train_loop_run [OF assms] by (elim exE conjE)
  have le: "length (buffer (replay_buffer st')) \<le> REPLAY_MEMORY"
    using ok by (simp add: rb_ok_def)
  have eq: "INITIAL_MEMORY = REPLAY_MEMORY"
    by (simp add: INITIAL_MEMORY_def REPLAY_MEMORY_def)
  have "ReplayBuffer_len (replay_buffer st) = INITIAL_MEMORY \<longrightarrow>
          ReplayBuffer_len (replay_buffer st') = INITIAL_MEMORY
          \<and> (\<forall>x \<in> set trace. if fst x = Continue then GradientStep \<in> set (snd x)
                               else snd x = [EnvStep])"
    using mono le tr eq by (simp add: ReplayBuffer_len_def)
  then show ?thesis
    using run mono le eq by (simp add: ReplayBuffer_len_def)
qed

theorem replay_size_monotone_learning_permanent_witness:
  "nets_ok (example_state 20000 10000) \<and> rb_ok (example_state 20000 10000)
   \<and> input_ok example_learner (example_input 0 False)
   \<and> input_ok example_learner (example_input 21 True)
   \<and> ReplayBuffer_len (replay_buffer (example_state 20000 10000)) = INITIAL_MEMORY
   \<and> (\<exists>st' trace.
         train_loop example_learner (example_state 20000 10000)
           [example_input 0 False, example_input 21 True] = Inr (st', trace)
         \<and> ReplayBuffer_len (replay_buffer st') = INITIAL_MEMORY)"
proof -
  let ?st = "example_state 20000 10000"
  have full: "ReplayBuffer_len (replay_buffer ?st) = INITIAL_MEMORY"
    by (simp add: example_state_def ReplayBuffer_len_def INITIAL_MEMORY_def)
  have inps: "\<forall>inp \<in> set [example_input 0 False, example_input 21 True].
                input_ok example_learner inp"
    using example_input_ok by simp
  note run = replay_size_monotone_learning_permanent
      [OF example_state_ok(1,2) [of 20000] inps, THEN conjunct2]
  then obtain st' trace where
    "train_loop example_learner ?st [example_input 0 False, example_input 21 True]
       = Inr (st', trace)"
    "ReplayBuffer_len (replay_buffer ?st) = INITIAL_MEMORY \<longrightarrow>
       ReplayBuffer_len (replay_buffer st') = INITIAL_MEMORY
       \<and> (\<forall>x \<in> set trace. if fst x = Continue then GradientStep \<in> set (snd x)
                            else snd x = [EnvStep])"
    by (elim exE conjE)
  then have "\<exists>st' trace.
         train_loop example_learner ?st [example_input 0 False, example_input 21 True]
           = Inr (st', trace)
         \<and> ReplayBuffer_len (replay_buffer st') = INITIAL_MEMORY"
    using full by blast
  then show ?thesis
    using example_state_ok(1,2) [of 20000] example_input_ok full by blast
qed

text \<open>
  C10, as stated, fails at the iteration on which the loop stops. From the setup, with
  an environment that neither rewards nor ends the episode for 10000 steps: the first
  9999 iterations only step the environment, iteration 10000 fills the replay buffer to
  \<open>INITIAL_MEMORY\<close> and executes the synchronisation and a gradient step. When the next
  step ends the episode with reward 21, the average reward is above 19.5 and that
  iteration breaks after its environment step, without a gradient step.
\<close>

theorem solved_step_has_no_gradient_step:
  "run_trace (train_loop example_learner (training_setup 5 7 0 0)
     (replicate 9999 (example_input 0 False) @ [example_input 0 False, example_input 21 True]))
   = Some (replicate 9999 (Continue, [EnvStep])
           @ [(Continue, [EnvStep, SyncTarget, GradientStep]), (Break, [EnvStep])])"
proof -
  let ?stA = "(example_state 10000 10000)\<lparr>params := [6, 5], optimizer_state := Suc 0\<rparr>"
  obtain stB where B: "train_iteration example_learner (example_input 21 True) ?stA
                         = Inr (stB, Break, [EnvStep])"
    using solved_iteration by blast
  have fA: "frame_idx (example_state 9999 9999) < total_frames"
    and fB: "frame_idx ?stA < total_frames"
    by (simp_all add: example_state_def total_frames_def)
  have two: "train_loop example_learner (example_state 9999 9999)
               [example_input 0 False, example_input 21 True]
             = Inr (stB, [(Continue, [EnvStep, SyncTarget, GradientStep]), (Break, [EnvStep])])"
    using fA fB by (simp add: first_learning_iteration B)
  have run: "train_loop example_learner (example_state 0 0)
               (replicate 9999 (example_input 0 False)
                  @ [example_input 0 False, example_input 21 True])
             = Inr (stB, replicate 9999 (Continue, [EnvStep])
                      @ [(Continue, [EnvStep, SyncTarget, GradientStep]), (Break, [EnvStep])])"
    using warmup_run_then [of 0 9999 "[example_input 0 False, example_input 21 True]"]
    by (simp add: two del: train_loop.simps)
  show ?thesis
    by (simp add: training_setup_example run run_trace_def del: train_loop.simps)
qed

subsection \<open>Action repeat with max-pooling\<close>

lemma skip_loop_repeat_action:
  "skip_loop env_step action k (e, buf, tot, dn) =
     (case repeat_action env_step action k e of
        (outs, e') \<Rightarrow>
          (e', foldl (deque_append 2) buf (map fst outs),
           tot + sum_list (map (fst \<circ> snd) outs),
           if outs = [] then dn else Some (snd (snd (last outs)))))"
proof (induction k arbitrary: e buf tot dn)
  case 0
  then show ?case by simp
next
  case (Suc k)
  obtain e1 obs r d where st: "env_step e action = (e1, obs, r, d)"
    by (cases "env_step e action") auto
  show ?case
  proof (cases d)
    case True
    then show ?thesis by (simp add: st)
  next
    case False
    obtain rest e2 where ra: "repeat_action env_step action k e1 = (rest, e2)"
      by (cases "repeat_action env_step action k e1") auto
    show ?thesis
      using False by (simp add: st Suc.IH ra add.assoc)
  qed
qed

lemma repeat_action_shape:
  assumes "repeat_action env_step action k e = (outs, e')"
  shows "length outs \<le> k \<and> (0 < k \<longrightarrow> outs \<noteq> [])
         \<and> (\<forall>x \<in> set (butlast outs). \<not> snd (snd x))
         \<and> (length outs < k \<longrightarrow> snd (snd (last outs)))"
  using assms
proof (induction k arbitrary: e outs e')
  case 0
  then show ?case by simp
next
  case (Suc k)
  obtain e1 obs r d where st: "env_step e action = (e1, obs, r, d)"
    by (cases "env_step e action") auto
  show ?case
  proof (cases d)
    case True
    then show ?thesis using Suc.prems by (auto simp: st)
  next
    case False
    obtain rest e2 where ra: "repeat_action env_step action k e1 = (rest, e2)"
      by (cases "repeat_action env_step action k e1") auto
    have outs: "outs = (obs, r, d) # rest"
      using Suc.prems False by (simp add: st ra)
    show ?thesis
      using Suc.IH [OF ra] False by (cases k) (auto simp: outs)
  qed
qed

lemma repeat_action_frames:
  assumes "repeat_action env_step action k e = (outs, e')"
    and "\<forall>e a. length (fst (snd (env_step e a))) = n"
  shows "\<forall>x \<in> set outs. length (fst x) = n"
  using assms(1)
proof (induction k arbitrary: e outs e')
  case 0
  then show ?case by simp
next
  case (Suc k)
  obtain e1 obs r d where st: "env_step e action = (e1, obs, r, d)"
    by (cases "env_step e action") auto
  have obs: "length obs = n"
    using assms(2) [rule_format, of e action] by (simp add: st)
  show ?case
  proof (cases d)
    case True
    then show ?thesis using Suc.prems obs by (auto simp: st)
  next
    case False
    obtain rest e2 where ra: "repeat_action env_step action k e1 = (rest, e2)"
      by (cases "repeat_action env_step action k e1") auto
    have outs: "outs = (obs, r, d) # rest"
      using Suc.prems False by (simp add: st ra)
    show ?thesis
      using Suc.IH [OF ra] obs by (auto simp: outs)
  qed
qed

lemma pixel_max_nth:
  "length f = n \<Longrightarrow> length g = n \<Longrightarrow>
   length (pixel_max f g) = n \<and> (\<forall>i<n. pixel_max f g ! i = max (f ! i) (g ! i))"
  by (simp add: pixel_max_def)

lemma np_max_stack_last_two:
  assumes "xs \<noteq> []" and "\<forall>f \<in> set xs. length f = n"
  shows "\<exists>m. np_max_stack (last_two xs) = Inr m \<and> length m = n
           \<and> (\<forall>i<n. m ! i = Max ((\<lambda>f. f ! i) ` set (last_two xs)))"
proof -
  have sub: "set (last_two xs) \<subseteq> set xs"
    by (simp add: last_two_def set_drop_subset)
  have "0 < length xs" using assms(1) by simp
  moreover have "length (last_two xs) = min 2 (length xs)"
    by (simp add: last_two_def)
  ultimately have len: "length (last_two xs) = 1 \<or> length (last_two xs) = 2"
    by linarith
  then show ?thesis
  proof
    assume "length (last_two xs) = 1"
    then obtain f where f: "last_two xs = [f]"
      by (cases "last_two xs") auto
    have "length f = n" using sub assms(2) by (auto simp: f)
    then show ?thesis by (simp add: f np_max_stack_def)
  next
    assume "length (last_two xs) = 2"
    then obtain f g where fg: "last_two xs = [f, g]"
      by (cases "last_two xs"; cases "tl (last_two xs)") auto
    have l: "length f = n" "length g = n" using sub assms(2) by (auto simp: fg)
    show ?thesis
      using pixel_max_nth [OF l] l by (simp add: fg np_max_stack_def)
  qed
qed

text \<open>
  C9. One \<^verbatim>\<open>step\<close> of \<^verbatim>\<open>MaxAndSkipEnv\<close> with \<open>skip = K > 0\<close> (\<^verbatim>\<open>make_env\<close>: 4), on a
  simulator whose frames all have \<open>n\<close> pixels: the raw steps executed are those of
  \<open>repeat_action\<close>, at least one and at most \<open>K\<close>, none but the last reporting termination,
  and fewer than \<open>K\<close> only when the last one does. The step returns the simulator after
  them, the sum of their rewards, the termination flag of the last one, and as frame the
  pixel-wise maximum of the last two raw frames the wrapper has seen (the deque of the
  wrapper before the step, then the frames of this step).
\<close>

theorem MaxAndSkipEnv_step_repeats_action:
  assumes "0 < skip self" and "length (obs_buffer self) \<le> 2"
    and "\<forall>e a. length (fst (snd (env_step e a))) = n"
    and "\<forall>f \<in> set (obs_buffer self). length f = n"
    and "repeat_action env_step action (skip self) e = (outs, e')"
  shows "outs \<noteq> [] \<and> length outs \<le> skip self
         \<and> (\<forall>x \<in> set (butlast outs). \<not> snd (snd x))
         \<and> (length outs < skip self \<longrightarrow> snd (snd (last outs)))
         \<and> (\<exists>max_frame.
               MaxAndSkipEnv_step env_step self e action =
                 Inr (self\<lparr>obs_buffer := last_two (obs_buffer self @ map fst outs)\<rparr>, e',
                      max_frame, sum_list (map (fst \<circ> snd) outs), snd (snd (last outs)))
               \<and> length max_frame = n
               \<and> (\<forall>i<n. max_frame ! i =
                     Max ((\<lambda>f. f ! i) ` set (last_two (obs_buffer self @ map fst outs)))))"
proof -
  let ?frames = "obs_buffer self @ map fst outs"
  have shape: "length outs \<le> skip self" "outs \<noteq> []"
    "\<forall>x \<in> set (butlast outs). \<not> snd (snd x)"
    "length outs < skip self \<longrightarrow> snd (snd (last outs))"
    using repeat_action_shape [OF assms(5)] assms(1) by auto
  have dq: "foldl (deque_append 2) (obs_buffer self) (map fst outs) = last_two ?frames"
    using deque_appends_drop [OF assms(2), of "map fst outs"] by (simp add: last_two_def)
  have ne: "?frames \<noteq> []" using shape(2) by simp
  have all: "\<forall>f \<in> set ?frames. length f = n"
    using assms(4) repeat_action_frames [OF assms(5) assms(3)] by auto
  obtain m where m: "np_max_stack (last_two ?frames) = Inr m" "length m = n"
    "\<forall>i<n. m ! i = Max ((\<lambda>f. f ! i) ` set (last_two ?frames))"
    using np_max_stack_last_two [OF ne all] by blast
  have "MaxAndSkipEnv_step env_step self e action =
          Inr (self\<lparr>obs_buffer := last_two ?frames\<rparr>, e', m,
               sum_list (map (fst \<circ> snd) outs), snd (snd (last outs)))"
    using shape(2) by (simp add: MaxAndSkipEnv_step_def skip_loop_repeat_action assms(5) dq m(1))
  then show ?thesis
    using shape m(2,3) by blast
qed


theorem MaxAndSkipEnv_step_repeats_action_witness:
  "0 < skip (MaxAndSkipEnv_init 4)
   \<and> (\<forall>e a. length (fst (snd (example_env_step e a))) = 2)
   \<and> repeat_action example_env_step 0 (skip (MaxAndSkipEnv_init 4)) 0
       = ([([1, 9], 1, False), ([2, 8], 2, False), ([3, 7], 3, True)], 3)
   \<and> MaxAndSkipEnv_step example_env_step (MaxAndSkipEnv_init 4) 0 0
       = Inr (\<lparr>obs_buffer = [[2, 8], [3, 7]], skip = 4\<rparr>, 3, [3, 8], 6, True)"
proof -
  have k: "(4::nat) = Suc (Suc (Suc (Suc 0)))" by simp
  have a1: "0 < skip (MaxAndSkipEnv_init 4)"
    by (simp add: MaxAndSkipEnv_init_def)
  have a2: "length (obs_buffer (MaxAndSkipEnv_init 4)) \<le> 2"
    by (simp add: MaxAndSkipEnv_init_def)
  have a3: "\<forall>e a. length (fst (snd (example_env_step e a))) = 2"
    by (simp add: example_env_step_def)
  have a4: "\<forall>f \<in> set (obs_buffer (MaxAndSkipEnv_init 4)). length f = 2"
    by (simp add: MaxAndSkipEnv_init_def)
  have a5: "repeat_action example_env_step 0 (skip (MaxAndSkipEnv_init 4)) 0
       = ([([1, 9], 1, False), ([2, 8], 2, False), ([3, 7], 3, True)], 3)"
    by (simp add: MaxAndSkipEnv_init_def k example_env_step_def)
  have m: "last_two [[1, 9], [2, 8], [3, 7::8 word]] = [[2, 8], [3, 7]]"
    by (simp add: last_two_def)
  have mx: "Max {8, 7::8 word} = 8" "Max {2, 3::8 word} = 3"
    by simp_all
  obtain max_frame where
    st: "MaxAndSkipEnv_step example_env_step (MaxAndSkipEnv_init 4) 0 0 =
           Inr (MaxAndSkipEnv_init 4\<lparr>obs_buffer := [[2, 8], [3, 7]]\<rparr>, 3, max_frame, 6, True)"
    and l: "length max_frame = 2"
    and p: "\<forall>i<2. max_frame ! i = Max ((\<lambda>f. f ! i) ` set [[2, 8], [3, 7]])"
    using MaxAndSkipEnv_step_repeats_action [OF a1 a2 a3 a4 a5] by (auto simp: MaxAndSkipEnv_init_def m)
  have "max_frame ! 0 = 3" "max_frame ! 1 = 8"
    using p mx by (simp_all add: insert_commute)
  then have "max_frame = [3, 8]"
    using l by (cases max_frame; cases "tl max_frame") auto
  then show ?thesis
    using a1 a3 a5 st by (simp add: MaxAndSkipEnv_init_def)
qed

end
